theory Spec2Isabelle
  imports Main "HOL-Library.Sublist"
begin

section \<open>The goscp-server chat server (src/main.go)\<close>

text \<open>
  src/main.go holds two variants of the server. The model is of the second, with users,
  sessions and passwords; of the first, with one \<^verbatim>\<open>Client\<close> per connection, only
  \<^verbatim>\<open>broadcastMsg\<close> is modelled, further below.
  The server keeps a global slice \<^verbatim>\<open>users []*User\<close> of registered users; every
  connection is served by one \<^verbatim>\<open>handleClient\<close> worker that owns a local
  \<^verbatim>\<open>Session\<close> value. Go pointers to \<^verbatim>\<open>User\<close> objects are modelled as
  addresses (indices) into an explicit heap, because several sessions and the
  global slice may alias one user object. A nil pointer is \<open>None\<close>; reading a
  field through nil is the runtime panic that ends the whole process.
  Sockets are numbered; what is written to a socket is recorded in a global log,
  and a write to a socket the server has closed sends nothing.
  The time stamps of a session play no part in any decision and are left out.
\<close>

subsection \<open>Wire format helpers (strings.Split, strings.Join)\<close>

definition SOH :: char where "SOH = CHR 0x01"
definition CR :: char where "CR = CHR 0x0D"
definition LF :: char where "LF = CHR 0x0A"
definition CRLF :: string where "CRLF = [CR, LF]"

text \<open>\<^verbatim>\<open>strings.Split(s, sep)\<close> for a non-empty separator: the pieces between the
  non-overlapping occurrences of \<open>sep\<close>, scanning from the left; without an
  occurrence the result is the one-element list \<open>[s]\<close>.\<close>

fun Split_from :: "string \<Rightarrow> string \<Rightarrow> string \<Rightarrow> string list" where
  "Split_from sep cur [] = [cur]"
| "Split_from sep cur (c # cs) =
     (if sep \<noteq> [] \<and> prefix sep (c # cs)
      then cur # Split_from sep [] (drop (length sep - 1) cs)
      else Split_from sep (cur @ [c]) cs)"

definition Split :: "string \<Rightarrow> string \<Rightarrow> string list" where
  "Split s sep = Split_from sep [] s"

fun Join :: "string list \<Rightarrow> string \<Rightarrow> string" where
  "Join [] sep = []"
| "Join [x] sep = x"
| "Join (x # y # ys) sep = x @ sep @ Join (y # ys) sep"

subsection \<open>Configuration\<close>

definition joinMsg :: string where
  "joinMsg = ''This server is running an experimental Go implementation of the kSCP server specification.''"
definition motdMsg :: string where "motdMsg = ''Welcome to GoSCP!''"
definition colorServer :: string where "colorServer = ''#d64161''"
definition colorAuth :: string where "colorAuth = ''#ffcc00''"
definition colorInfo :: string where "colorInfo = ''#f6de6c''"

subsection \<open>Data model\<close>

text \<open>A \<^verbatim>\<open>Session\<close> value. \<open>User\<close> is the \<^verbatim>\<open>*User\<close> pointer, \<open>Socket\<close> the
  number of the connection's socket.\<close>

record Session =
  User :: "nat option"
  Authenticated :: bool
  Socket :: nat
  LocalAddr :: string
  RemoteAddr :: string

record PrivateMessage =
  PmUser :: "nat option"
  Message :: string

record User =
  Username :: string
  PasswordHash :: string
  About :: string
  Sessions :: "Session list"
  Online :: bool
  Mute :: bool
  Admin :: bool
  Root :: bool
  Ghost :: bool
  Away :: bool
  PendingPMs :: "PrivateMessage list"
  AwayReason :: string
  AwayAnnounce :: bool

text \<open>The zero value of \<^verbatim>\<open>User\<close> with a username, as \<^verbatim>\<open>User{Username: n}\<close> builds it.\<close>

definition newUser :: "string \<Rightarrow> User" where
  "newUser n = \<lparr>Username = n, PasswordHash = [], About = [], Sessions = [],
     Online = False, Mute = False, Admin = False, Root = False, Ghost = False,
     Away = False, PendingPMs = [], AwayReason = [], AwayAnnounce = False\<rparr>"

text \<open>The shared state of the process: the global \<open>users\<close> slice (addresses), the heap
  of allocated \<^verbatim>\<open>User\<close> objects, the sockets the server has closed, and the log of
  socket writes \<open>(socket, bytes)\<close> in the order they were made.\<close>

record World =
  users :: "nat list"
  heap :: "User list"
  closed :: "nat list"
  sent :: "(nat \<times> string) list"

datatype error = NilPointerDereference

type_synonym 'a result = "error + 'a"

definition deref :: "World \<Rightarrow> nat \<Rightarrow> User" where
  "deref w a = heap w ! a"

definition store :: "nat \<Rightarrow> User \<Rightarrow> World \<Rightarrow> World" where
  "store a u w = w\<lparr>heap := (heap w)[a := u]\<rparr>"

subsection \<open>Socket primitives\<close>

definition sockWrite :: "nat \<Rightarrow> string \<Rightarrow> World \<Rightarrow> World" where
  "sockWrite c bs w = (if c \<in> set (closed w) then w else w\<lparr>sent := sent w @ [(c, bs)]\<rparr>)"

definition sockClose :: "nat \<Rightarrow> World \<Rightarrow> World" where
  "sockClose c w = (if c \<in> set (closed w) then w else w\<lparr>closed := c # closed w\<rparr>)"

text \<open>\<^verbatim>\<open>Session.Write\<close>: the parameters joined by SOH, CRLF appended, one socket write.\<close>

definition Write :: "Session \<Rightarrow> string list \<Rightarrow> World \<Rightarrow> World" where
  "Write s parameters w = sockWrite (Socket s) (Join parameters [SOH] @ CRLF) w"

definition SendMsg :: "Session \<Rightarrow> string \<Rightarrow> string \<Rightarrow> World \<Rightarrow> World" where
  "SendMsg s fromUsername msg w = Write s [''MSG'', fromUsername, msg] w"

definition SendAuthMsg :: "Session \<Rightarrow> string \<Rightarrow> World \<Rightarrow> World" where
  "SendAuthMsg s msg w =
     Write s [''MSG'', ''[Authentication]'', ''[color='' @ colorAuth @ '']'' @ msg @ ''[/color]''] w"

definition SendServerMsg :: "Session \<Rightarrow> string \<Rightarrow> World \<Rightarrow> World" where
  "SendServerMsg s msg w =
     Write s [''MSG'', ''[Server]'', ''[color='' @ colorServer @ '']'' @ msg @ ''[/color]''] w"

definition SendInfoMsg :: "Session \<Rightarrow> string \<Rightarrow> World \<Rightarrow> World" where
  "SendInfoMsg s msg w =
     Write s [''MSG'', ''[Info]'', ''[color='' @ colorInfo @ '']'' @ msg @ ''[/color]''] w"

text \<open>The opcode of an announcement is spelled \<^verbatim>\<open>Msg\<close> in the source.\<close>

definition SendAnnouncementMsg :: "Session \<Rightarrow> string \<Rightarrow> World \<Rightarrow> World" where
  "SendAnnouncementMsg s msg w = Write s [''Msg'', ''Announcement'', msg] w"

definition SendPMFrom :: "Session \<Rightarrow> string \<Rightarrow> string \<Rightarrow> World \<Rightarrow> World" where
  "SendPMFrom s fromusername msg w = Write s [''PM'', fromusername, msg] w"

definition Ping :: "Session \<Rightarrow> string \<Rightarrow> World \<Rightarrow> World" where
  "Ping s msg w = Write s [''PING'', msg] w"

definition Pong :: "Session \<Rightarrow> string \<Rightarrow> World \<Rightarrow> World" where
  "Pong s msg w = Write s [''PONG'', msg] w"

subsection \<open>Registry lookups\<close>

fun userExists_loop :: "World \<Rightarrow> string \<Rightarrow> nat list \<Rightarrow> bool" where
  "userExists_loop w username [] = False"
| "userExists_loop w username (a # as) =
     (if username = Username (deref w a) \<and> PasswordHash (deref w a) \<noteq> [] \<and> Ghost (deref w a) = False
      then True else userExists_loop w username as)"

definition userExists :: "string \<Rightarrow> World \<Rightarrow> bool" where
  "userExists username w = userExists_loop w username (users w)"

fun getUser_loop :: "World \<Rightarrow> string \<Rightarrow> nat list \<Rightarrow> nat option" where
  "getUser_loop w username [] = None"
| "getUser_loop w username (a # as) =
     (if username = Username (deref w a) \<and> PasswordHash (deref w a) \<noteq> [] \<and> Ghost (deref w a) = False
      then Some a else getUser_loop w username as)"

definition getUser :: "string \<Rightarrow> World \<Rightarrow> nat option" where
  "getUser username w = getUser_loop w username (users w)"

subsection \<open>The user list\<close>

definition userFlags :: "User \<Rightarrow> string" where
  "userFlags u =
     (let flags = ''O'';
          flags = (if Mute u then flags @ ''M'' else flags);
          flags = (if Admin u then flags @ ''A'' else flags);
          flags = (if Root u then flags @ ''R'' else flags);
          flags = (if Away u then flags @ ''B'' else flags)
      in flags)"

text \<open>\<^verbatim>\<open>fmt.Sprintf("[%s] %s - %s", flags, user.Username, user.About)\<close>\<close>

definition listEntry :: "User \<Rightarrow> string" where
  "listEntry u = ''['' @ userFlags u @ ''] '' @ Username u @ '' - '' @ About u"

fun SendList_loop :: "World \<Rightarrow> nat list \<Rightarrow> string list \<Rightarrow> string list" where
  "SendList_loop w [] userList = userList"
| "SendList_loop w (a # as) userList =
     (if Ghost (deref w a) then SendList_loop w as userList
      else if \<not> Online (deref w a) then SendList_loop w as userList
      else SendList_loop w as (userList @ [listEntry (deref w a)]))"

definition SendList :: "Session \<Rightarrow> World \<Rightarrow> World" where
  "SendList s w = Write s [''LIST'', Join (SendList_loop w (users w) []) [SOH]] w"

subsection \<open>Messaging engine\<close>

text \<open>\<^verbatim>\<open>Session.BroadcastMsg\<close>: the sender's name is read through \<^verbatim>\<open>s.User\<close> each
  time a record is written.\<close>

fun BroadcastMsg_sessions :: "Session \<Rightarrow> string \<Rightarrow> Session list \<Rightarrow> World \<Rightarrow> World result" where
  "BroadcastMsg_sessions s msg [] w = Inr w"
| "BroadcastMsg_sessions s msg (session # rest) w =
     (if RemoteAddr s = RemoteAddr session then BroadcastMsg_sessions s msg rest w
      else (case User s of
              None \<Rightarrow> Inl NilPointerDereference
            | Some u \<Rightarrow> BroadcastMsg_sessions s msg rest
                         (Write session [''MSG'', Username (deref w u), msg] w)))"

fun BroadcastMsg_users :: "Session \<Rightarrow> string \<Rightarrow> nat list \<Rightarrow> World \<Rightarrow> World result" where
  "BroadcastMsg_users s msg [] w = Inr w"
| "BroadcastMsg_users s msg (a # as) w =
     (case BroadcastMsg_sessions s msg (Sessions (deref w a)) w of
        Inl e \<Rightarrow> Inl e
      | Inr w' \<Rightarrow> BroadcastMsg_users s msg as w')"

definition BroadcastMsg :: "Session \<Rightarrow> string \<Rightarrow> World \<Rightarrow> World result" where
  "BroadcastMsg s msg w = BroadcastMsg_users s msg (users w) w"

fun BroadcastAction_sessions :: "Session \<Rightarrow> string \<Rightarrow> Session list \<Rightarrow> World \<Rightarrow> World" where
  "BroadcastAction_sessions s msg [] w = w"
| "BroadcastAction_sessions s msg (session # rest) w =
     (if RemoteAddr s = RemoteAddr session then BroadcastAction_sessions s msg rest w
      else BroadcastAction_sessions s msg rest (Write session [''MSG'', ''Announcement'', msg] w))"

fun BroadcastAction_users :: "Session \<Rightarrow> string \<Rightarrow> nat list \<Rightarrow> World \<Rightarrow> World" where
  "BroadcastAction_users s msg [] w = w"
| "BroadcastAction_users s msg (a # as) w =
     BroadcastAction_users s msg as (BroadcastAction_sessions s msg (Sessions (deref w a)) w)"

definition BroadcastAction :: "Session \<Rightarrow> string \<Rightarrow> World \<Rightarrow> World" where
  "BroadcastAction s msg w = BroadcastAction_users s msg (users w) w"

fun SendPM_sessions :: "Session \<Rightarrow> string \<Rightarrow> Session list \<Rightarrow> World \<Rightarrow> World result" where
  "SendPM_sessions s msg [] w = Inr w"
| "SendPM_sessions s msg (session # rest) w =
     (case User s of
        None \<Rightarrow> Inl NilPointerDereference
      | Some u \<Rightarrow> SendPM_sessions s msg rest (Write session [''PM'', Username (deref w u), msg] w))"

fun SendPM_loop :: "Session \<Rightarrow> string \<Rightarrow> string \<Rightarrow> nat list \<Rightarrow> World \<Rightarrow> World result" where
  "SendPM_loop s targetUsername msg [] w = Inr w"
| "SendPM_loop s targetUsername msg (a # as) w =
     (if targetUsername = Username (deref w a)
      then (if length (Sessions (deref w a)) \<le> 0
            then Inr (store a ((deref w a)\<lparr>PendingPMs := PendingPMs (deref w a)
                         @ [\<lparr>PmUser = User s, Message = msg\<rparr>]\<rparr>) w)
            else SendPM_sessions s msg (Sessions (deref w a)) w)
      else SendPM_loop s targetUsername msg as w)"

definition SendPM :: "Session \<Rightarrow> string \<Rightarrow> string \<Rightarrow> World \<Rightarrow> World result" where
  "SendPM s targetUsername msg w = SendPM_loop s targetUsername msg (users w) w"

fun SendRAW_sessions :: "Session \<Rightarrow> string \<Rightarrow> string \<Rightarrow> Session list \<Rightarrow> World \<Rightarrow> World" where
  "SendRAW_sessions s targetUsername raw [] w = w"
| "SendRAW_sessions s targetUsername raw (session # rest) w =
     (if RemoteAddr s = RemoteAddr session then SendRAW_sessions s targetUsername raw rest w
      else SendRAW_sessions s targetUsername raw rest (Write session [''RAW'', targetUsername, raw] w))"

fun SendRAW_loop :: "Session \<Rightarrow> string \<Rightarrow> string \<Rightarrow> nat list \<Rightarrow> World \<Rightarrow> World" where
  "SendRAW_loop s targetUsername raw [] w = w"
| "SendRAW_loop s targetUsername raw (a # as) w =
     (if targetUsername = Username (deref w a)
      then SendRAW_sessions s targetUsername raw (Sessions (deref w a)) w
      else SendRAW_loop s targetUsername raw as w)"

definition SendRAW :: "Session \<Rightarrow> string \<Rightarrow> string \<Rightarrow> World \<Rightarrow> World" where
  "SendRAW s targetUsername raw w = SendRAW_loop s targetUsername raw (users w) w"

subsection \<open>Teardown\<close>

text \<open>\<^verbatim>\<open>Session.Close\<close> walks the registry for the first user whose name equals the name
  of the session's user; only then is the session list rewritten and the socket
  closed. The comparison reads \<^verbatim>\<open>s.User.Username\<close>, so with a nil user and a
  non-empty registry it panics. \<open>Close_body s u a\<close> is the body of the matching branch,
  for the session's user at \<open>u\<close> and the matching user of the registry at \<open>a\<close>.\<close>

definition Close_body :: "Session \<Rightarrow> nat \<Rightarrow> nat \<Rightarrow> World \<Rightarrow> World" where
  "Close_body s u a w =
     (let newSessions = filter (\<lambda>session. RemoteAddr s \<noteq> RemoteAddr session)
                          (Sessions (deref w a));
          w = store u ((deref w u)\<lparr>Sessions := newSessions\<rparr>) w;
          w = sockClose (Socket s) w;
          w = (if length (Sessions (deref w u)) \<le> 0
               then store u ((deref w u)\<lparr>Away := True, AwayReason := ''Offline.''\<rparr>) w
               else w)
      in w)"

fun Close_loop :: "Session \<Rightarrow> nat list \<Rightarrow> World \<Rightarrow> World result" where
  "Close_loop s [] w = Inr w"
| "Close_loop s (a # as) w =
     (case User s of
        None \<Rightarrow> Inl NilPointerDereference
      | Some u \<Rightarrow>
          if Username (deref w u) = Username (deref w a)
          then Inr (Close_body s u a w)
          else Close_loop s as w)"

definition Close :: "Session \<Rightarrow> World \<Rightarrow> World result" where
  "Close s w = Close_loop s (users w) w"

definition Kill :: "Session \<Rightarrow> string \<Rightarrow> World \<Rightarrow> World result" where
  "Kill s reason w =
     (let w = (if reason = [] then Write s [''KILL''] w
               else Write s [''KILL'', reason]
                      (sockWrite (Socket s) (''KILL'' @ [SOH] @ reason @ CRLF) w))
      in Close s w)"

subsection \<open>Command dispatcher\<close>

text \<open>The password service (\<^verbatim>\<open>bcrypt.GenerateFromPassword\<close>,
  \<^verbatim>\<open>bcrypt.CompareHashAndPassword\<close>) is a parameter of the model: \<open>H\<close> hashes a
  password and may fail (\<open>None\<close>), \<open>V digest password\<close> tells whether the comparison
  succeeds. The text sent with the PING of a JOIN is the conversion of the clock
  reading to a string, \<^verbatim>\<open>string(time.Now().Unix())\<close>; it is the parameter \<open>tok\<close>.
  A \<^verbatim>\<open>continue\<close> of the source leaves session and world as they are.\<close>

text \<open>Lines 714 to 726: attach the session (a copy of the session value as it is at
  that moment), mark the user online, send list, banner and message of the day, then
  send the pending private messages.\<close>

fun flushPMs :: "Session \<Rightarrow> PrivateMessage list \<Rightarrow> World \<Rightarrow> World result" where
  "flushPMs s [] w = Inr w"
| "flushPMs s (pm # rest) w =
     (case PmUser pm of
        None \<Rightarrow> Inl NilPointerDereference
      | Some p \<Rightarrow> flushPMs s rest (SendPMFrom s (Username (deref w p)) (Message pm) w))"

definition authFinish :: "Session \<Rightarrow> nat \<Rightarrow> World \<Rightarrow> (Session \<times> World) result" where
  "authFinish s u w =
     (let w = store u ((deref w u)\<lparr>Sessions := Sessions (deref w u) @ [s]\<rparr>) w;
          w = store u ((deref w u)\<lparr>Online := True\<rparr>) w;
          w = store u ((deref w u)\<lparr>Away := False\<rparr>) w;
          w = store u ((deref w u)\<lparr>AwayReason := []\<rparr>) w;
          s = s\<lparr>Authenticated := True\<rparr>;
          w = SendList s w;
          w = SendAnnouncementMsg s joinMsg w;
          w = SendMsg s ''Message of the Day'' motdMsg w
      in case flushPMs s (PendingPMs (deref w u)) w of
           Inl e \<Rightarrow> Inl e
         | Inr w \<Rightarrow> Inr (s, w))"

definition cmdJOIN :: "string \<Rightarrow> string list \<Rightarrow> Session \<Rightarrow> World \<Rightarrow> (Session \<times> World) result" where
  "cmdJOIN tok args s w =
     (if (case User s of None \<Rightarrow> False | Some u \<Rightarrow> Online (deref w u)) then Inr (s, w)
      else if length args < 1 then Inr (s, w)
      else
        (let user = newUser (args ! 0);
             user = (if length args > 1 then user\<lparr>About := args ! 1\<rparr> else user);
             a = length (heap w);
             w = w\<lparr>heap := heap w @ [user]\<rparr>;
             s = s\<lparr>User := Some a\<rparr>;
             w = Ping s tok w
         in if userExists (args ! 0) w
            then (let s = s\<lparr>User := getUser (args ! 0) w\<rparr>
                  in Inr (s, SendAuthMsg s ''You must authenticate with the password attached to your username to continue. Ex: [u]/auth MyPassword[/u]'' w))
            else Inr (s, SendAuthMsg s ''You must register a password to attach to your username to continue. Ex: [u]/auth MyNewPassword[/u]'' w)))"

definition cmdAUTH :: "(string \<Rightarrow> string option) \<Rightarrow> (string \<Rightarrow> string \<Rightarrow> bool) \<Rightarrow>
    string list \<Rightarrow> Session \<Rightarrow> World \<Rightarrow> (Session \<times> World) result" where
  "cmdAUTH H V args s w =
     (if length args < 1 then Inr (s, w)
      else
        (let password = args ! 0 in
         if Authenticated s then
           (case H password of
              None \<Rightarrow> Inr (s, SendAuthMsg s ''There was an error changing your password. Please try again.'' w)
            | Some hashedPassword \<Rightarrow>
                (case User s of
                   None \<Rightarrow> Inl NilPointerDereference
                 | Some u \<Rightarrow>
                     Inr (s, SendAuthMsg s ''Changed your password successfully.''
                               (store u ((deref w u)\<lparr>PasswordHash := hashedPassword\<rparr>) w))))
         else
           (case User s of
              None \<Rightarrow> Inl NilPointerDereference
            | Some u \<Rightarrow>
                if PasswordHash (deref w u) \<noteq> [] then
                  (if \<not> V (PasswordHash (deref w u)) password
                   then Inr (s, SendAuthMsg s ''You entered an invalid password. Please try again.'' w)
                   else authFinish s u
                          (SendAuthMsg s (''Authenticated as '' @ Username (deref w u) @ '' successfully.'') w))
                else if userExists (Username (deref w u)) w then
                  Inr (s, SendAuthMsg s (''The username '' @ Username (deref w u)
                            @ '' is already taken. Please change your username and try again. Ex: [u]/nick MyNewUsername[/u]'') w)
                else
                  (case H password of
                     None \<Rightarrow> Inr (s, SendAuthMsg s ''There was an error registering your username with your chosen password. Please try again.'' w)
                   | Some hashedPassword \<Rightarrow>
                       (let w = store u ((deref w u)\<lparr>PasswordHash := hashedPassword\<rparr>) w;
                            w = w\<lparr>users := users w @ [u]\<rparr>;
                            w = SendAuthMsg s ''Registered your username with your chosen password successfully.'' w;
                            w = BroadcastAction s (Username (deref w u) @ '' has joined the server!'') w
                        in authFinish s u w)))))"

text \<open>The AUTH case in two parts, for the schedules in which a worker is preempted inside it:
  \<open>authCheck\<close> is the case up to and including the call of
  \<^verbatim>\<open>bcrypt.GenerateFromPassword\<close> on the registration path (lines 673 to 707), which either
  finishes the command or reaches line 708 with the digest and the user;
  \<open>registerCommit\<close> is the rest of the registration path (lines 708 to 726), which stores
  the digest and appends the user to the registry without looking at the registry again.\<close>

datatype authStage =
    Finished "(Session \<times> World) result"
  | Registering string nat

definition authCheck :: "(string \<Rightarrow> string option) \<Rightarrow> (string \<Rightarrow> string \<Rightarrow> bool) \<Rightarrow>
    string list \<Rightarrow> Session \<Rightarrow> World \<Rightarrow> authStage" where
  "authCheck H V args s w =
     (if length args < 1 then Finished (Inr (s, w))
      else
        (let password = args ! 0 in
         if Authenticated s then
           (case H password of
              None \<Rightarrow> Finished (Inr (s, SendAuthMsg s ''There was an error changing your password. Please try again.'' w))
            | Some hashedPassword \<Rightarrow>
                (case User s of
                   None \<Rightarrow> Finished (Inl NilPointerDereference)
                 | Some u \<Rightarrow>
                     Finished (Inr (s, SendAuthMsg s ''Changed your password successfully.''
                               (store u ((deref w u)\<lparr>PasswordHash := hashedPassword\<rparr>) w)))))
         else
           (case User s of
              None \<Rightarrow> Finished (Inl NilPointerDereference)
            | Some u \<Rightarrow>
                if PasswordHash (deref w u) \<noteq> [] then
                  (if \<not> V (PasswordHash (deref w u)) password
                   then Finished (Inr (s, SendAuthMsg s ''You entered an invalid password. Please try again.'' w))
                   else Finished (authFinish s u
                          (SendAuthMsg s (''Authenticated as '' @ Username (deref w u) @ '' successfully.'') w)))
                else if userExists (Username (deref w u)) w then
                  Finished (Inr (s, SendAuthMsg s (''The username '' @ Username (deref w u)
                            @ '' is already taken. Please change your username and try again. Ex: [u]/nick MyNewUsername[/u]'') w))
                else
                  (case H password of
                     None \<Rightarrow> Finished (Inr (s, SendAuthMsg s ''There was an error registering your username with your chosen password. Please try again.'' w))
                   | Some hashedPassword \<Rightarrow> Registering hashedPassword u))))"

definition registerCommit :: "string \<Rightarrow> Session \<Rightarrow> nat \<Rightarrow> World \<Rightarrow> (Session \<times> World) result" where
  "registerCommit hashedPassword s u w =
     (let w = store u ((deref w u)\<lparr>PasswordHash := hashedPassword\<rparr>) w;
          w = w\<lparr>users := users w @ [u]\<rparr>;
          w = SendAuthMsg s ''Registered your username with your chosen password successfully.'' w;
          w = BroadcastAction s (Username (deref w u) @ '' has joined the server!'') w
      in authFinish s u w)"

definition cmdQUIT :: "Session \<Rightarrow> World \<Rightarrow> (Session \<times> World) result" where
  "cmdQUIT s w = (case Close s w of Inl e \<Rightarrow> Inl e | Inr w \<Rightarrow> Inr (s, w))"

definition cmdMSG :: "string list \<Rightarrow> Session \<Rightarrow> World \<Rightarrow> (Session \<times> World) result" where
  "cmdMSG args s w =
     (if \<not> Authenticated s then Inr (s, w)
      else if length args < 2 then Inr (s, w)
      else (case User s of
              None \<Rightarrow> Inl NilPointerDereference
            | Some u \<Rightarrow>
                if args ! 0 \<noteq> Username (deref w u) then Inr (s, w)
                else (case BroadcastMsg s (args ! 1) w of Inl e \<Rightarrow> Inl e | Inr w \<Rightarrow> Inr (s, w))))"

definition cmdPM :: "string list \<Rightarrow> Session \<Rightarrow> World \<Rightarrow> (Session \<times> World) result" where
  "cmdPM args s w =
     (if \<not> Authenticated s then Inr (s, w)
      else if length args < 2 then Inr (s, w)
      else if \<not> userExists (args ! 0) w
      then Inr (s, SendServerMsg s (''The user '' @ args ! 0 @ '' does not exist.'') w)
      else (case SendPM s (args ! 0) (args ! 1) w of Inl e \<Rightarrow> Inl e | Inr w \<Rightarrow> Inr (s, w)))"

definition cmdLIST :: "Session \<Rightarrow> World \<Rightarrow> (Session \<times> World) result" where
  "cmdLIST s w = (if \<not> Authenticated s then Inr (s, w) else Inr (s, SendList s w))"

definition cmdNAME :: "string list \<Rightarrow> Session \<Rightarrow> World \<Rightarrow> (Session \<times> World) result" where
  "cmdNAME args s w =
     (if length args < 2 then Inr (s, w)
      else (case User s of
              None \<Rightarrow> Inl NilPointerDereference
            | Some u \<Rightarrow>
                if Username (deref w u) \<noteq> args ! 0 then Inr (s, w)
                else if userExists (args ! 1) w then
                  (if Authenticated s
                   then Inr (s, SendServerMsg s (''The username '' @ args ! 0 @ '' is already taken.'') w)
                   else Inr (s, SendAuthMsg s (''The username '' @ args ! 0 @ '' is already taken.'') w))
                else
                  (let w = store u ((deref w u)\<lparr>Username := args ! 1\<rparr>) w
                   in if Authenticated s
                      then Inr (s, SendList s
                                (BroadcastAction s (args ! 0 @ '' is now known as '' @ args ! 1 @ ''.'') w))
                      else Inr (s, SendAnnouncementMsg s
                                (args ! 0 @ '' is now known as '' @ args ! 1 @ ''.'') w))))"

text \<open>\<^verbatim>\<open>%v\<close> of a Go bool, and \<^verbatim>\<open>strings.TrimPrefix\<close>.\<close>

definition goBool :: "bool \<Rightarrow> string" where
  "goBool b = (if b then ''true'' else ''false'')"

definition TrimPrefix :: "string \<Rightarrow> string \<Rightarrow> string" where
  "TrimPrefix s p = (if prefix p s then drop (length p) s else s)"

definition cmdINFO :: "string list \<Rightarrow> Session \<Rightarrow> World \<Rightarrow> (Session \<times> World) result" where
  "cmdINFO args s w =
     (case User s of
        None \<Rightarrow> Inl NilPointerDereference
      | Some u \<Rightarrow>
          if \<not> Online (deref w u) then Inr (s, w)
          else if length args < 1 then Inr (s, w)
          else if \<not> userExists (args ! 0) w
          then Inr (s, SendServerMsg s (''The user '' @ args ! 0 @ '' does not exist.'') w)
          else (case getUser (args ! 0) w of
                  None \<Rightarrow> Inl NilPointerDereference
                | Some t \<Rightarrow>
                    (let user = deref w t;
                         userInfo = ''Info for user '' @ Username user @ '':%n%Online: '' @ goBool (Online user)
                                    @ ''%n%Away: '' @ goBool (Away user) @ ''%n%'';
                         userInfo = (if AwayReason user \<noteq> []
                                     then userInfo @ ''Away reason: '' @ AwayReason user @ ''%n%''
                                     else userInfo);
                         userInfo = userInfo @ ''Muted: '' @ goBool (Mute user) @ ''%n%Admin: ''
                                    @ goBool (Admin user) @ ''%n%Root: '' @ goBool (Root user) @ ''%n%''
                     in Inr (s, SendInfoMsg s (TrimPrefix userInfo ''%%n%%'') w))))"

definition cmdRAW :: "string list \<Rightarrow> Session \<Rightarrow> World \<Rightarrow> (Session \<times> World) result" where
  "cmdRAW args s w =
     (case User s of
        None \<Rightarrow> Inl NilPointerDereference
      | Some u \<Rightarrow>
          if \<not> Online (deref w u) then Inr (s, w)
          else if length args < 2 then Inr (s, w)
          else if \<not> userExists (args ! 0) w
          then Inr (s, SendServerMsg s (''The user '' @ args ! 0 @ '' does not exist.'') w)
          else Inr (s, SendRAW s (args ! 0) (args ! 1) w))"

definition cmdAWAY :: "string list \<Rightarrow> Session \<Rightarrow> World \<Rightarrow> (Session \<times> World) result" where
  "cmdAWAY args s w =
     (case User s of
        None \<Rightarrow> Inl NilPointerDereference
      | Some u \<Rightarrow>
          if \<not> Online (deref w u) then Inr (s, w)
          else if Away (deref w u) then
            (let w = store u ((deref w u)\<lparr>Away := False\<rparr>) w;
                 w = SendInfoMsg s ''You are no longer marked as away.'' w;
                 w = (if AwayAnnounce (deref w u)
                      then BroadcastAction s (Username (deref w u) @ '' is no longer marked as away.'') w
                      else w);
                 w = store u ((deref w u)\<lparr>AwayAnnounce := False\<rparr>) w;
                 w = store u ((deref w u)\<lparr>AwayReason := []\<rparr>) w
             in Inr (s, SendList s w))
          else
            (let w = store u ((deref w u)\<lparr>Away := True\<rparr>) w;
                 w = (if length args > 0 then
                        (let w = store u ((deref w u)\<lparr>AwayReason := args ! 0\<rparr>) w;
                             w = SendInfoMsg s (''You are now marked as away. Reason: '' @ args ! 0) w
                         in if length args > 1 \<and> args ! 1 = ''1''
                            then (let w = store u ((deref w u)\<lparr>AwayAnnounce := True\<rparr>) w
                                  in BroadcastAction s (Username (deref w u)
                                       @ '' is now marked as away. Reason: '' @ args ! 0) w)
                            else w)
                      else SendInfoMsg s ''You are now marked as away.'' w)
             in Inr (s, SendList s w)))"

definition dispatch :: "(string \<Rightarrow> string option) \<Rightarrow> (string \<Rightarrow> string \<Rightarrow> bool) \<Rightarrow> string \<Rightarrow>
    string \<Rightarrow> string list \<Rightarrow> Session \<Rightarrow> World \<Rightarrow> (Session \<times> World) result" where
  "dispatch H V tok cmd args s w =
     (if cmd = ''PING'' then (if length args < 1 then Inr (s, w) else Inr (s, Pong s (args ! 0) w))
      else if cmd = ''PONG'' then Inr (s, w)
      else if cmd = ''JOIN'' then cmdJOIN tok args s w
      else if cmd = ''AUTH'' then cmdAUTH H V args s w
      else if cmd = ''QUIT'' then cmdQUIT s w
      else if cmd = ''MSG'' then cmdMSG args s w
      else if cmd = ''PM'' then cmdPM args s w
      else if cmd = ''LIST'' then cmdLIST s w
      else if cmd = ''NAME'' then cmdNAME args s w
      else if cmd = ''INFO'' then cmdINFO args s w
      else if cmd = ''RAW'' then cmdRAW args s w
      else if cmd = ''AWAY'' then cmdAWAY args s w
      else Inr (s, SendServerMsg s (''Server does not support opcode [b]'' @ cmd @ ''[/b].'') w))"

subsection \<open>Connection handler\<close>

text \<open>One read of the connection: the bytes read are split on CRLF, empty pieces are
  skipped, each other piece is split on SOH into opcode and arguments and dispatched.
  The \<^verbatim>\<open>break\<close> after \<^verbatim>\<open>session.Close()\<close> in the QUIT case leaves the
  \<^verbatim>\<open>switch\<close>, not the loop over the records.\<close>

definition decodePacket :: "string \<Rightarrow> string \<times> string list" where
  "decodePacket p =
     (let packet = Split p [SOH];
          cmd = packet ! 0;
          args = (if length packet \<ge> 2 then tl packet else [])
      in (cmd, args))"

fun handlePackets :: "(string \<Rightarrow> string option) \<Rightarrow> (string \<Rightarrow> string \<Rightarrow> bool) \<Rightarrow> string \<Rightarrow>
    string list \<Rightarrow> Session \<Rightarrow> World \<Rightarrow> (Session \<times> World) result" where
  "handlePackets H V tok [] s w = Inr (s, w)"
| "handlePackets H V tok (p # ps) s w =
     (if p = [] then handlePackets H V tok ps s w
      else if length (Split p [SOH]) \<le> 0 then handlePackets H V tok ps s w
      else (case dispatch H V tok (fst (decodePacket p)) (snd (decodePacket p)) s w of
              Inl e \<Rightarrow> Inl e
            | Inr (s', w') \<Rightarrow> handlePackets H V tok ps s' w'))"

definition handleRead :: "(string \<Rightarrow> string option) \<Rightarrow> (string \<Rightarrow> string \<Rightarrow> bool) \<Rightarrow> string \<Rightarrow>
    string \<Rightarrow> Session \<Rightarrow> World \<Rightarrow> (Session \<times> World) result" where
  "handleRead H V tok buf s w =
     (if length buf \<le> 0 then Inr (s, w)
      else handlePackets H V tok (Split buf CRLF) s w)"

text \<open>The successive successful reads of one connection, as the \<^verbatim>\<open>for\<close> loop around
  \<^verbatim>\<open>c.Read\<close> handles them: every read is split and dispatched on its own.\<close>

fun handleReads :: "(string \<Rightarrow> string option) \<Rightarrow> (string \<Rightarrow> string \<Rightarrow> bool) \<Rightarrow> string \<Rightarrow>
    string list \<Rightarrow> Session \<Rightarrow> World \<Rightarrow> (Session \<times> World) result" where
  "handleReads H V tok [] s w = Inr (s, w)"
| "handleReads H V tok (buf # bufs) s w =
     (case handleRead H V tok buf s w of
        Inl e \<Rightarrow> Inl e
      | Inr (s', w') \<Rightarrow> handleReads H V tok bufs s' w')"

text \<open>The decoded command sequence of one read, and the dispatch of a command
  sequence; these two name what the loop above does, for the statements below.\<close>

definition decode :: "string \<Rightarrow> (string \<times> string list) list" where
  "decode buf = map decodePacket (filter (\<lambda>p. p \<noteq> []) (Split buf CRLF))"

fun dispatchAll :: "(string \<Rightarrow> string option) \<Rightarrow> (string \<Rightarrow> string \<Rightarrow> bool) \<Rightarrow> string \<Rightarrow>
    (string \<times> string list) list \<Rightarrow> Session \<Rightarrow> World \<Rightarrow> (Session \<times> World) result" where
  "dispatchAll H V tok [] s w = Inr (s, w)"
| "dispatchAll H V tok (c # cs) s w =
     (case dispatch H V tok (fst c) (snd c) s w of
        Inl e \<Rightarrow> Inl e
      | Inr (s', w') \<Rightarrow> dispatchAll H V tok cs s' w')"

text \<open>The process: the shared world and the local session of every worker
  (\<open>None\<close> once \<^verbatim>\<open>handleClient\<close> has returned). The workers are goroutines that share the
  world without any lock, so the scheduler may switch between them anywhere. The events of
  the model are an accepted connection, a read that returns bytes and is handled without
  another worker running in between, a read that fails, and, for the one place where a worker
  stays long between reading the registry and writing it, a read of the single record AUTH
  that is preempted after \<^verbatim>\<open>bcrypt.GenerateFromPassword\<close> on the registration path
  (\<open>AuthBegin\<close>) and resumed later at line 708 (\<open>AuthResume\<close>); \<open>preempted\<close> holds, for
  every worker stopped there, the digest and the user it will register. A worker that is
  preempted takes no other step. A read on a socket that the server itself has closed
  fails. These are some of the schedules of the process, not all of them; the bound of
  65535 bytes on one read is not modelled.\<close>

record System =
  world :: World
  workers :: "Session option list"
  preempted :: "(nat \<times> string \<times> nat) list"

datatype event =
    Accept string string
  | Read nat string string
  | ReadError nat
  | AuthBegin nat string
  | AuthResume nat

text \<open>The events in which a worker handles a whole read without another worker running in
  between.\<close>

fun atomic :: "event \<Rightarrow> bool" where
  "atomic (Accept localAddr remoteAddr) = True"
| "atomic (Read i tok buf) = True"
| "atomic (ReadError i) = True"
| "atomic (AuthBegin i password) = False"
| "atomic (AuthResume i) = False"

definition readFailed :: "nat \<Rightarrow> Session \<Rightarrow> System \<Rightarrow> System result" where
  "readFailed i s sys =
     (case Close s (world sys) of
        Inl e \<Rightarrow> Inl e
      | Inr w \<Rightarrow> Inr (sys\<lparr>world := w, workers := (workers sys)[i := None]\<rparr>))"

definition step :: "(string \<Rightarrow> string option) \<Rightarrow> (string \<Rightarrow> string \<Rightarrow> bool) \<Rightarrow>
    event \<Rightarrow> System \<Rightarrow> System result" where
  "step H V ev sys =
     (case ev of
        Accept localAddr remoteAddr \<Rightarrow>
          Inr (sys\<lparr>workers := workers sys @
                 [Some \<lparr>User = None, Authenticated = False, Socket = length (workers sys),
                        LocalAddr = localAddr, RemoteAddr = remoteAddr\<rparr>]\<rparr>)
      | Read i tok buf \<Rightarrow>
          (if i < length (workers sys) \<and> map_of (preempted sys) i = None then
             (case workers sys ! i of
                None \<Rightarrow> Inr sys
              | Some s \<Rightarrow>
                  if Socket s \<in> set (closed (world sys)) then readFailed i s sys
                  else (case handleRead H V tok buf s (world sys) of
                          Inl e \<Rightarrow> Inl e
                        | Inr (s', w) \<Rightarrow> Inr (sys\<lparr>world := w, workers := (workers sys)[i := Some s']\<rparr>)))
           else Inr sys)
      | ReadError i \<Rightarrow>
          (if i < length (workers sys) \<and> map_of (preempted sys) i = None then
             (case workers sys ! i of
                None \<Rightarrow> Inr sys
              | Some s \<Rightarrow> readFailed i s sys)
           else Inr sys)
      | AuthBegin i password \<Rightarrow>
          (if i < length (workers sys) \<and> map_of (preempted sys) i = None then
             (case workers sys ! i of
                None \<Rightarrow> Inr sys
              | Some s \<Rightarrow>
                  if Socket s \<in> set (closed (world sys)) then readFailed i s sys
                  else (case authCheck H V [password] s (world sys) of
                          Finished (Inl e) \<Rightarrow> Inl e
                        | Finished (Inr (s', w)) \<Rightarrow>
                            Inr (sys\<lparr>world := w, workers := (workers sys)[i := Some s']\<rparr>)
                        | Registering hashedPassword u \<Rightarrow>
                            Inr (sys\<lparr>preempted := (i, hashedPassword, u) # preempted sys\<rparr>)))
           else Inr sys)
      | AuthResume i \<Rightarrow>
          (if i < length (workers sys) then
             (case workers sys ! i of
                None \<Rightarrow> Inr sys
              | Some s \<Rightarrow>
                  (case map_of (preempted sys) i of
                     None \<Rightarrow> Inr sys
                   | Some saved \<Rightarrow>
                       (case registerCommit (fst saved) s (snd saved) (world sys) of
                          Inl e \<Rightarrow> Inl e
                        | Inr (s', w) \<Rightarrow>
                            Inr (sys\<lparr>world := w, workers := (workers sys)[i := Some s'],
                                     preempted := filter (\<lambda>p. fst p \<noteq> i) (preempted sys)\<rparr>))))
           else Inr sys))"

fun run :: "(string \<Rightarrow> string option) \<Rightarrow> (string \<Rightarrow> string \<Rightarrow> bool) \<Rightarrow>
    event list \<Rightarrow> System \<Rightarrow> System result" where
  "run H V [] sys = Inr sys"
| "run H V (ev # evs) sys =
     (case step H V ev sys of
        Inl e \<Rightarrow> Inl e
      | Inr sys' \<Rightarrow> run H V evs sys')"

definition init :: System where
  "init = \<lparr>world = \<lparr>users = [], heap = [], closed = [], sent = []\<rparr>, workers = [],
            preempted = []\<rparr>"

subsection \<open>The earlier Client variant: broadcastMsg\<close>

text \<open>The first variant of the server in src/main.go keeps one \<^verbatim>\<open>Client\<close> per connection
  in the global slice \<^verbatim>\<open>clients\<close>. Its \<^verbatim>\<open>broadcastMsg(username, fromUsername, msg)\<close>
  reads only the socket and the username of a client; the writes are appended to a log.\<close>

record Client =
  ClientSocket :: nat
  ClientUsername :: string

fun broadcastMsg_loop :: "string \<Rightarrow> string \<Rightarrow> string \<Rightarrow> Client list \<Rightarrow>
    (nat \<times> string) list \<Rightarrow> (nat \<times> string) list" where
  "broadcastMsg_loop username fromUsername msg [] out = out"
| "broadcastMsg_loop username fromUsername msg (client # rest) out =
     (if ClientUsername client = fromUsername
      then broadcastMsg_loop username fromUsername msg rest out
      else broadcastMsg_loop username fromUsername msg rest
             (out @ [(ClientSocket client, ''MSG'' @ [SOH] @ username @ [SOH] @ msg @ CRLF)]))"

definition broadcastMsg :: "string \<Rightarrow> string \<Rightarrow> string \<Rightarrow> Client list \<Rightarrow>
    (nat \<times> string) list \<Rightarrow> (nat \<times> string) list" where
  "broadcastMsg username fromUsername msg clients out =
     (if length clients < 1 then out
      else broadcastMsg_loop username fromUsername msg clients out)"

section \<open>Definitions used in the statements\<close>

subsection \<open>The registry invariant\<close>

text \<open>\<open>frame w w'\<close>: the registry slice, the size of the heap and, for every user object,
  username, digest and ghost flag are the same in \<open>w'\<close> as in \<open>w\<close>, and no online flag has
  been cleared. \<open>grows w w'\<close>: nothing has been removed from heap or registry and no
  online flag has been cleared.\<close>

definition frame :: "World \<Rightarrow> World \<Rightarrow> bool" where
  "frame w w' \<longleftrightarrow>
     users w' = users w \<and> length (heap w') = length (heap w) \<and>
     (\<forall>a < length (heap w).
        Username (deref w' a) = Username (deref w a) \<and>
        PasswordHash (deref w' a) = PasswordHash (deref w a) \<and>
        Ghost (deref w' a) = Ghost (deref w a) \<and>
        (Online (deref w a) \<longrightarrow> Online (deref w' a)))"

definition grows :: "World \<Rightarrow> World \<Rightarrow> bool" where
  "grows w w' \<longleftrightarrow>
     length (heap w) \<le> length (heap w') \<and> set (users w) \<subseteq> set (users w') \<and>
     (\<forall>a < length (heap w). Online (deref w a) \<longrightarrow> Online (deref w' a))"

text \<open>The invariant of the registry: every address in the registry is allocated and has
  a non-empty digest, the names in the registry are pairwise different, no user object
  is ghost (nothing in the source sets the flag), and every user object with a non-empty
  digest is in the registry. A session points to an allocated user object, or to none;
  an authenticated session points to a registered user that is online.\<close>

definition registryInv :: "World \<Rightarrow> bool" where
  "registryInv w \<longleftrightarrow>
     (\<forall>a \<in> set (users w). a < length (heap w) \<and> PasswordHash (deref w a) \<noteq> []) \<and>
     distinct (map (\<lambda>a. Username (deref w a)) (users w)) \<and>
     (\<forall>a < length (heap w). \<not> Ghost (deref w a) \<and>
        (PasswordHash (deref w a) \<noteq> [] \<longrightarrow> a \<in> set (users w)))"

definition sessionInv :: "World \<Rightarrow> Session \<Rightarrow> bool" where
  "sessionInv w s \<longleftrightarrow>
     (case User s of
        None \<Rightarrow> \<not> Authenticated s
      | Some u \<Rightarrow> u < length (heap w) \<and>
                 (Authenticated s \<longrightarrow> u \<in> set (users w) \<and> Online (deref w u)))"

definition systemInv :: "System \<Rightarrow> bool" where
  "systemInv sys \<longleftrightarrow>
     registryInv (world sys) \<and>
     (\<forall>s. Some s \<in> set (workers sys) \<longrightarrow> sessionInv (world sys) s)"

text \<open>At most one registered user (non-empty digest) owns a username.\<close>

definition uniqueRegistered :: "World \<Rightarrow> bool" where
  "uniqueRegistered w \<longleftrightarrow>
     (\<forall>a < length (heap w). \<forall>b < length (heap w).
        PasswordHash (deref w a) \<noteq> [] \<and> PasswordHash (deref w b) \<noteq> [] \<and>
        Username (deref w a) = Username (deref w b) \<longrightarrow> a = b)"

subsection \<open>Example inputs\<close>

text \<open>A password service for the examples: the digest of a password is never empty,
  as with bcrypt.\<close>

definition exampleHash :: "string \<Rightarrow> string option" where
  "exampleHash p = Some (''$2a$'' @ p)"

definition exampleVerify :: "string \<Rightarrow> string \<Rightarrow> bool" where
  "exampleVerify digest p = (digest = ''$2a$'' @ p)"

text \<open>U+FFFD in UTF-8: what the conversion of a clock reading beyond the range of
  Unicode code points to a string yields.\<close>

definition exampleTok :: string where
  "exampleTok = [CHR 0xEF, CHR 0xBF, CHR 0xBD]"

definition freshSession :: Session where
  "freshSession = \<lparr>User = None, Authenticated = False, Socket = 0,
     LocalAddr = ''0.0.0.0:100'', RemoteAddr = ''10.0.0.1:5000''\<rparr>"

text \<open>The user alice, registered and online with one attached session, and the local
  session value of that connection.\<close>

definition aliceAttached :: Session where
  "aliceAttached = \<lparr>User = Some 0, Authenticated = False, Socket = 0,
     LocalAddr = ''0.0.0.0:100'', RemoteAddr = ''10.0.0.1:5000''\<rparr>"

definition aliceSession :: Session where
  "aliceSession = aliceAttached\<lparr>Authenticated := True\<rparr>"

definition aliceWorld :: World where
  "aliceWorld = \<lparr>users = [0],
     heap = [(newUser ''alice'')\<lparr>PasswordHash := ''$2a$secret'', Sessions := [aliceAttached],
               Online := True\<rparr>],
     closed = [], sent = []\<rparr>"

definition aliceSecond :: Session where
  "aliceSecond = \<lparr>User = Some 0, Authenticated = False, Socket = 1,
     LocalAddr = ''0.0.0.0:100'', RemoteAddr = ''10.0.0.2:6000''\<rparr>"

text \<open>The world after two connections have joined and authenticated as alice: one user
  object in the registry with two attached sessions; the second cell of the heap is
  the candidate object that the second JOIN allocated and dropped.\<close>

definition aliceTwoWorld :: World where
  "aliceTwoWorld = \<lparr>users = [0],
     heap = [(newUser ''alice'')\<lparr>PasswordHash := ''$2a$secret'',
               Sessions := [aliceAttached, aliceSecond], Online := True\<rparr>,
             newUser ''alice''],
     closed = [], sent = []\<rparr>"

text \<open>Two connections have joined as alice while the name was free, and the first has
  registered it: the second session still holds its own candidate object with the name
  alice and no digest.\<close>

definition candidateSession :: Session where
  "candidateSession = \<lparr>User = Some 1, Authenticated = False, Socket = 1,
     LocalAddr = ''0.0.0.0:100'', RemoteAddr = ''10.0.0.2:6000''\<rparr>"

definition collisionWorld :: World where
  "collisionWorld = \<lparr>users = [0],
     heap = [(newUser ''alice'')\<lparr>PasswordHash := ''$2a$secret'', Sessions := [aliceAttached],
               Online := True\<rparr>,
             newUser ''alice''],
     closed = [], sent = []\<rparr>"

definition collisionEvents :: "event list" where
  "collisionEvents =
     [Accept ''0.0.0.0:100'' ''10.0.0.1:5000'', Accept ''0.0.0.0:100'' ''10.0.0.2:6000'',
      Read 0 exampleTok (''JOIN'' @ [SOH] @ ''alice'' @ CRLF),
      Read 1 exampleTok (''JOIN'' @ [SOH] @ ''alice'' @ CRLF),
      Read 0 exampleTok (''AUTH'' @ [SOH] @ ''secret'' @ CRLF)]"

text \<open>alice registers and quits; bob registers and sends her two private messages while she
  has no session; then alice authenticates on a new connection, and once more on another.\<close>

definition pendingEvents :: "event list" where
  "pendingEvents =
     [Accept ''0.0.0.0:100'' ''10.0.0.1:5000'',
      Read 0 exampleTok (''JOIN'' @ [SOH] @ ''alice'' @ CRLF @ ''AUTH'' @ [SOH] @ ''secret'' @ CRLF),
      Read 0 exampleTok (''QUIT'' @ CRLF),
      Accept ''0.0.0.0:100'' ''10.0.0.2:6000'',
      Read 1 exampleTok (''JOIN'' @ [SOH] @ ''bob'' @ CRLF @ ''AUTH'' @ [SOH] @ ''hunter2'' @ CRLF),
      Read 1 exampleTok (''PM'' @ [SOH] @ ''alice'' @ [SOH] @ ''hello'' @ CRLF),
      Read 1 exampleTok (''PM'' @ [SOH] @ ''alice'' @ [SOH] @ ''again'' @ CRLF),
      Accept ''0.0.0.0:100'' ''10.0.0.1:5001'',
      Read 2 exampleTok (''JOIN'' @ [SOH] @ ''alice'' @ CRLF @ ''AUTH'' @ [SOH] @ ''secret'' @ CRLF),
      Accept ''0.0.0.0:100'' ''10.0.0.1:5002'',
      Read 3 exampleTok (''JOIN'' @ [SOH] @ ''alice'' @ CRLF @ ''AUTH'' @ [SOH] @ ''secret'' @ CRLF)]"

text \<open>Two connections join as alice while the name is free and send AUTH; both workers are
  preempted after hashing, and then both go on.\<close>

definition raceEvents :: "event list" where
  "raceEvents =
     [Accept ''0.0.0.0:100'' ''10.0.0.1:5000'', Accept ''0.0.0.0:100'' ''10.0.0.2:6000'',
      Read 0 exampleTok (''JOIN'' @ [SOH] @ ''alice'' @ CRLF),
      Read 1 exampleTok (''JOIN'' @ [SOH] @ ''alice'' @ CRLF),
      AuthBegin 0 ''secret'', AuthBegin 1 ''other'',
      AuthResume 0, AuthResume 1]"

text \<open>Two live connections from one remote address (to two local addresses of the server),
  both authenticated as alice.\<close>

definition aliceSameAddr :: Session where
  "aliceSameAddr = \<lparr>User = Some 0, Authenticated = False, Socket = 1,
     LocalAddr = ''10.0.0.9:100'', RemoteAddr = ''10.0.0.1:5000''\<rparr>"

definition sharedAddrWorld :: World where
  "sharedAddrWorld = \<lparr>users = [0],
     heap = [(newUser ''alice'')\<lparr>PasswordHash := ''$2a$secret'',
               Sessions := [aliceAttached, aliceSameAddr], Online := True\<rparr>,
             newUser ''alice''],
     closed = [], sent = []\<rparr>"

section \<open>Properties\<close>

subsection \<open>Frame lemmas\<close>

lemma Close_body_sent: "sent (Close_body s u a w) = sent w"
  by (simp add: Close_body_def store_def sockClose_def Let_def)

lemma Close_loop_sent: "Close_loop s as w = Inr w' \<Longrightarrow> sent w' = sent w"
  by (induction as) (auto simp: Close_body_sent split: option.splits if_splits)

lemma Close_sent: "Close s w = Inr w' \<Longrightarrow> sent w' = sent w"
  unfolding Close_def by (rule Close_loop_sent)

lemma Close_loop_registered:
  "User s = Some u \<Longrightarrow> u \<in> set as \<Longrightarrow> distinct (map (\<lambda>a. Username (deref w a)) as)
   \<Longrightarrow> Close_loop s as w = Inr (Close_body s u u w)"
proof (induction as)
  case Nil
  then show ?case by simp
next
  case (Cons a as)
  show ?case
  proof (cases "a = u")
    case True
    with Cons.prems show ?thesis by simp
  next
    case False
    with Cons.prems have "u \<in> set as" by simp
    moreover from Cons.prems have "distinct (map (\<lambda>a. Username (deref w a)) as)" by simp
    moreover have "Username (deref w u) \<noteq> Username (deref w a)"
    proof
      assume eq: "Username (deref w u) = Username (deref w a)"
      from Cons.prems have notin: "Username (deref w a) \<notin> (\<lambda>a. Username (deref w a)) ` set as"
        by simp
      from \<open>u \<in> set as\<close> have "(\<lambda>a. Username (deref w a)) u \<in> (\<lambda>a. Username (deref w a)) ` set as"
        by (rule imageI)
      with eq notin show False by simp
    qed
    ultimately show ?thesis using Cons.IH Cons.prems(1) by simp
  qed
qed

lemma Close_body_props:
  assumes "u < length (heap w)"
  shows "Sessions (deref (Close_body s u a w) u) = filter (\<lambda>e. RemoteAddr s \<noteq> RemoteAddr e) (Sessions (deref w a))"
    and "Online (deref (Close_body s u a w) b) = Online (deref w b)"
    and "Socket s \<in> set (closed (Close_body s u a w))"
    and "filter (\<lambda>e. RemoteAddr s \<noteq> RemoteAddr e) (Sessions (deref w a)) = [] \<Longrightarrow>
           Away (deref (Close_body s u a w) u) \<and> AwayReason (deref (Close_body s u a w) u) = ''Offline.''"
    and "filter (\<lambda>e. RemoteAddr s \<noteq> RemoteAddr e) (Sessions (deref w a)) \<noteq> [] \<Longrightarrow>
           Away (deref (Close_body s u a w) u) = Away (deref w u)
           \<and> AwayReason (deref (Close_body s u a w) u) = AwayReason (deref w u)"
  using assms
  by (auto simp: Close_body_def Let_def store_def deref_def sockClose_def nth_list_update)

subsection \<open>The user list\<close>

lemma SendList_loop_filter:
  "SendList_loop w as userList =
     userList @ map (\<lambda>a. listEntry (deref w a))
                  (filter (\<lambda>a. Online (deref w a) \<and> \<not> Ghost (deref w a)) as)"
  by (induction as arbitrary: userList) auto

lemma userFlags_order:
  "userFlags u = ''O'' @ (if Mute u then ''M'' else []) @ (if Admin u then ''A'' else [])
                  @ (if Root u then ''R'' else []) @ (if Away u then ''B'' else [])"
  by (simp add: userFlags_def)

text \<open>C7: the LIST reply written by \<^verbatim>\<open>SendList\<close> is the record \<open>LIST\<close>, SOH, the entries
  joined by SOH, CRLF, where the entries are those of exactly the users of the registry
  that are online and not ghost, in registry order; every entry reads
  \<open>[flags] username - about\<close> with the flags \<open>O\<close>, then \<open>M\<close>, \<open>A\<close>, \<open>R\<close>, \<open>B\<close> for mute, admin,
  root and away, in this order.\<close>

theorem SendList_roster:
  "SendList s w =
     sockWrite (Socket s)
       (''LIST'' @ [SOH]
         @ Join (map listEntry (filter (\<lambda>u. Online u \<and> \<not> Ghost u) (map (deref w) (users w)))) [SOH]
         @ CRLF) w
   \<and> listEntry u =
       ''['' @ ''O'' @ (if Mute u then ''M'' else []) @ (if Admin u then ''A'' else [])
           @ (if Root u then ''R'' else []) @ (if Away u then ''B'' else [])
           @ ''] '' @ Username u @ '' - '' @ About u"
  by (simp add: SendList_def Write_def SendList_loop_filter listEntry_def userFlags_order
        filter_map comp_def)

subsection \<open>Kill\<close>

text \<open>C8: on an open socket, \<^verbatim>\<open>Kill\<close> with a non-empty reason writes the record
  \<open>KILL\<close> SOH reason CRLF twice (the raw socket write and the one through \<^verbatim>\<open>Write\<close>),
  with an empty reason it writes the single record \<open>KILL\<close> CRLF; the teardown
  \<^verbatim>\<open>Close\<close> runs on the world after these writes and adds no write of its own.\<close>

theorem Kill_writes:
  assumes "Socket s \<notin> set (closed w)"
  shows "Kill s reason w =
           Close s (w\<lparr>sent := sent w @
              (if reason = [] then [(Socket s, ''KILL'' @ CRLF)]
               else [(Socket s, ''KILL'' @ [SOH] @ reason @ CRLF),
                     (Socket s, ''KILL'' @ [SOH] @ reason @ CRLF)])\<rparr>)
       \<and> (\<forall>w'. Kill s reason w = Inr w' \<longrightarrow> sent w' = sent w @
              (if reason = [] then [(Socket s, ''KILL'' @ CRLF)]
               else [(Socket s, ''KILL'' @ [SOH] @ reason @ CRLF),
                     (Socket s, ''KILL'' @ [SOH] @ reason @ CRLF)]))"
proof -
  have eq: "Kill s reason w =
           Close s (w\<lparr>sent := sent w @
              (if reason = [] then [(Socket s, ''KILL'' @ CRLF)]
               else [(Socket s, ''KILL'' @ [SOH] @ reason @ CRLF),
                     (Socket s, ''KILL'' @ [SOH] @ reason @ CRLF)])\<rparr>)"
    using assms by (simp add: Kill_def Write_def sockWrite_def)
  show ?thesis
  proof (intro conjI allI impI)
    show "Kill s reason w =
           Close s (w\<lparr>sent := sent w @
              (if reason = [] then [(Socket s, ''KILL'' @ CRLF)]
               else [(Socket s, ''KILL'' @ [SOH] @ reason @ CRLF),
                     (Socket s, ''KILL'' @ [SOH] @ reason @ CRLF)])\<rparr>)" by (rule eq)
  next
    fix w' assume "Kill s reason w = Inr w'"
    with eq have "Close s (w\<lparr>sent := sent w @
              (if reason = [] then [(Socket s, ''KILL'' @ CRLF)]
               else [(Socket s, ''KILL'' @ [SOH] @ reason @ CRLF),
                     (Socket s, ''KILL'' @ [SOH] @ reason @ CRLF)])\<rparr>) = Inr w'" by simp
    from Close_sent[OF this] show "sent w' = sent w @
              (if reason = [] then [(Socket s, ''KILL'' @ CRLF)]
               else [(Socket s, ''KILL'' @ [SOH] @ reason @ CRLF),
                     (Socket s, ''KILL'' @ [SOH] @ reason @ CRLF)])" by simp
  qed
qed

theorem Kill_writes_witness:
  "Socket aliceSession \<notin> set (closed aliceWorld)
   \<and> (\<exists>w'. Kill aliceSession ''bye'' aliceWorld = Inr w'
        \<and> sent w' = [(0, ''KILL'' @ [SOH] @ ''bye'' @ CRLF), (0, ''KILL'' @ [SOH] @ ''bye'' @ CRLF)])
   \<and> (\<exists>w'. Kill aliceSession [] aliceWorld = Inr w' \<and> sent w' = [(0, ''KILL'' @ CRLF)])"
proof -
  have h: "Socket aliceSession \<notin> set (closed aliceWorld)"
    by (simp add: aliceSession_def aliceAttached_def aliceWorld_def)
  have s0: "sent aliceWorld = []" by (simp add: aliceWorld_def)
  from Kill_writes [OF h, of "''bye''"] Kill_writes [OF h, of "[]"] h s0 show ?thesis
    by (auto simp add: aliceSession_def aliceAttached_def aliceWorld_def Close_def Close_body_def
          deref_def newUser_def Let_def)
qed

subsection \<open>Detaching a session\<close>


text \<open>The world \<open>sharedAddrWorld\<close> arises from a run of the server (the log of writes aside),
  and after QUIT on the first connection the worker of the second is still there, its
  session authenticated and its socket open.\<close>

lemma sharedAddrWorld_reachable:
  "(case run exampleHash exampleVerify
     [Accept ''0.0.0.0:100'' ''10.0.0.1:5000'', Accept ''10.0.0.9:100'' ''10.0.0.1:5000'',
      Read 0 exampleTok (''JOIN'' @ [SOH] @ ''alice'' @ CRLF @ ''AUTH'' @ [SOH] @ ''secret'' @ CRLF),
      Read 1 exampleTok (''JOIN'' @ [SOH] @ ''alice'' @ CRLF @ ''AUTH'' @ [SOH] @ ''secret'' @ CRLF)] init of
     Inl e \<Rightarrow> False
   | Inr sys \<Rightarrow> (world sys)\<lparr>sent := []\<rparr> = sharedAddrWorld
       \<and> workers sys = [Some aliceSession, Some (aliceSameAddr\<lparr>Authenticated := True\<rparr>)])"
  by code_simp

lemma second_session_still_live:
  "(case run exampleHash exampleVerify
     [Accept ''0.0.0.0:100'' ''10.0.0.1:5000'', Accept ''10.0.0.9:100'' ''10.0.0.1:5000'',
      Read 0 exampleTok (''JOIN'' @ [SOH] @ ''alice'' @ CRLF @ ''AUTH'' @ [SOH] @ ''secret'' @ CRLF),
      Read 1 exampleTok (''JOIN'' @ [SOH] @ ''alice'' @ CRLF @ ''AUTH'' @ [SOH] @ ''secret'' @ CRLF),
      Read 0 exampleTok (''QUIT'' @ CRLF)] init of
     Inl e \<Rightarrow> False
   | Inr sys \<Rightarrow> Sessions (deref (world sys) 0) = [] \<and> Away (deref (world sys) 0)
       \<and> AwayReason (deref (world sys) 0) = ''Offline.'' \<and> closed (world sys) = [0]
       \<and> workers sys = [Some aliceSession, Some (aliceSameAddr\<lparr>Authenticated := True\<rparr>)])"
  by code_simp




subsection \<open>Broadcast\<close>



text \<open>The two example worlds arise from runs of the server (the log of writes aside).\<close>

lemma aliceTwoWorld_reachable:
  "(case run exampleHash exampleVerify
     [Accept ''0.0.0.0:100'' ''10.0.0.1:5000'', Accept ''0.0.0.0:100'' ''10.0.0.2:6000'',
      Read 0 exampleTok (''JOIN'' @ [SOH] @ ''alice'' @ CRLF @ ''AUTH'' @ [SOH] @ ''secret'' @ CRLF),
      Read 1 exampleTok (''JOIN'' @ [SOH] @ ''alice'' @ CRLF @ ''AUTH'' @ [SOH] @ ''secret'' @ CRLF)] init of
     Inl e \<Rightarrow> False
   | Inr sys \<Rightarrow> (world sys)\<lparr>sent := []\<rparr> = aliceTwoWorld
       \<and> workers sys = [Some aliceSession, Some (aliceSecond\<lparr>Authenticated := True\<rparr>)])"
  by code_simp

lemma aliceWorld_reachable:
  "(case run exampleHash exampleVerify
     [Accept ''0.0.0.0:100'' ''10.0.0.1:5000'',
      Read 0 exampleTok (''JOIN'' @ [SOH] @ ''alice'' @ CRLF @ ''AUTH'' @ [SOH] @ ''secret'' @ CRLF)] init of
     Inl e \<Rightarrow> False
   | Inr sys \<Rightarrow> (world sys)\<lparr>sent := []\<rparr> = aliceWorld \<and> workers sys = [Some aliceSession])"
  by code_simp

text \<open>The earlier \<^verbatim>\<open>broadcastMsg\<close> leaves out every client whose name is \<open>fromUsername\<close>.\<close>

lemma broadcastMsg_loop_by_name:
  "broadcastMsg_loop username fromUsername msg clients out =
     out @ map (\<lambda>c. (ClientSocket c, ''MSG'' @ [SOH] @ username @ [SOH] @ msg @ CRLF))
             (filter (\<lambda>c. ClientUsername c \<noteq> fromUsername) clients)"
  by (induction clients arbitrary: out) auto

lemma broadcastMsg_by_name:
  "broadcastMsg username fromUsername msg clients out =
     out @ map (\<lambda>c. (ClientSocket c, ''MSG'' @ [SOH] @ username @ [SOH] @ msg @ CRLF))
             (filter (\<lambda>c. ClientUsername c \<noteq> fromUsername) clients)"
  by (cases clients) (simp_all add: broadcastMsg_def broadcastMsg_loop_by_name)




subsection \<open>Decoding of reads\<close>

lemma Split_from_not_Nil: "Split_from sep cur s \<noteq> []"
  by (induction sep cur s rule: Split_from.induct) auto

lemma handlePackets_dispatchAll:
  "handlePackets H V tok ps s w = dispatchAll H V tok (map decodePacket (filter (\<lambda>p. p \<noteq> []) ps)) s w"
  by (induction ps arbitrary: s w) (auto simp: Split_def Split_from_not_Nil split: sum.splits)

lemma handleRead_decode: "handleRead H V tok buf s w = dispatchAll H V tok (decode buf) s w"
  by (cases buf) (simp_all add: handleRead_def decode_def handlePackets_dispatchAll Split_def)

lemma dispatchAll_append:
  "dispatchAll H V tok (xs @ ys) s w =
     (case dispatchAll H V tok xs s w of Inl e \<Rightarrow> Inl e | Inr (s', w') \<Rightarrow> dispatchAll H V tok ys s' w')"
  by (induction xs arbitrary: s w) (auto split: sum.splits)

text \<open>C5, as the claim states it, fails: the bytes \<open>PING\<close> SOH \<open>abc\<close> CRLF arriving in the two
  reads \<open>PING\<close> SOH \<open>a\<close> and \<open>bc\<close> CRLF are decoded as the two commands \<open>PING a\<close> and \<open>bc\<close>, while the
  same bytes arriving in one read are decoded as \<open>PING abc\<close>, and the server behaves
  differently in the two cases.\<close>

theorem reads_not_reassembled:
  "handleReads exampleHash exampleVerify exampleTok
       [''PING'' @ [SOH] @ ''a'', ''bc'' @ CRLF] freshSession (world init)
     \<noteq> handleReads exampleHash exampleVerify exampleTok
       [''PING'' @ [SOH] @ ''a'' @ ''bc'' @ CRLF] freshSession (world init)
   \<and> concat (map decode [''PING'' @ [SOH] @ ''a'', ''bc'' @ CRLF]) = [(''PING'', [''a'']), (''bc'', [])]
   \<and> decode (''PING'' @ [SOH] @ ''a'' @ ''bc'' @ CRLF) = [(''PING'', [''abc''])]"
  by code_simp

text \<open>C5, amended: every read is decoded on its own. The bytes of one read are split on
  CRLF, the empty pieces are dropped and every other piece is one record, split on SOH into
  opcode and arguments; the commands dispatched over a sequence of reads are the
  concatenation of the commands decoded from each read. Nothing is carried over from one
  read to the next, so a record that straddles two reads is handled as two records.\<close>

theorem handleReads_per_read:
  "handleReads H V tok reads s w = dispatchAll H V tok (concat (map decode reads)) s w"
  by (induction reads arbitrary: s w) (auto simp: handleRead_decode dispatchAll_append split: sum.splits)

subsection \<open>AUTH before JOIN\<close>

lemma cmdAUTH_without_user:
  "User s = None \<Longrightarrow> \<not> Authenticated s \<Longrightarrow> args \<noteq> [] \<Longrightarrow>
   cmdAUTH H V args s w = Inl NilPointerDereference"
  by (cases args) (simp_all add: cmdAUTH_def)

text \<open>C3: the code at the failing input. A connection is accepted and its first record is
  \<open>AUTH\<close> SOH \<open>secret\<close> CRLF: the session has no user, the AUTH case reads
  \<^verbatim>\<open>session.User.PasswordHash\<close> through the nil pointer and the process panics.\<close>

theorem AUTH_without_user_panics:
  "run exampleHash exampleVerify
     [Accept ''0.0.0.0:100'' ''10.0.0.1:5000'',
      Read 0 exampleTok (''AUTH'' @ [SOH] @ ''secret'' @ CRLF)] init = Inl NilPointerDereference"
  by code_simp

subsection \<open>Sends leave heap and registry alone\<close>

lemma sockWrite_frame [simp]:
  "heap (sockWrite c bs w) = heap w" "users (sockWrite c bs w) = users w"
  "closed (sockWrite c bs w) = closed w"
  by (simp_all add: sockWrite_def)

lemma Write_frame [simp]:
  "heap (Write s ps w) = heap w" "users (Write s ps w) = users w" "closed (Write s ps w) = closed w"
  by (simp_all add: Write_def)

lemma Send_frame [simp]:
  "heap (SendMsg s f m w) = heap w" "users (SendMsg s f m w) = users w"
  "heap (SendAuthMsg s m w) = heap w" "users (SendAuthMsg s m w) = users w"
  "heap (SendServerMsg s m w) = heap w" "users (SendServerMsg s m w) = users w"
  "heap (SendInfoMsg s m w) = heap w" "users (SendInfoMsg s m w) = users w"
  "heap (SendAnnouncementMsg s m w) = heap w" "users (SendAnnouncementMsg s m w) = users w"
  "heap (SendPMFrom s f m w) = heap w" "users (SendPMFrom s f m w) = users w"
  "heap (Ping s m w) = heap w" "users (Ping s m w) = users w"
  "heap (Pong s m w) = heap w" "users (Pong s m w) = users w"
  by (simp_all add: SendMsg_def SendAuthMsg_def SendServerMsg_def SendInfoMsg_def
        SendAnnouncementMsg_def SendPMFrom_def Ping_def Pong_def)

lemma deref_same: "heap w' = heap w \<Longrightarrow> deref w' a = deref w a"
  by (simp add: deref_def)

lemma deref_sends [simp]:
  "deref (sockWrite c bs w) a = deref w a" "deref (Write s ps w) a = deref w a"
  "deref (SendMsg s f m w) a = deref w a" "deref (SendAuthMsg s m w) a = deref w a"
  "deref (SendServerMsg s m w) a = deref w a" "deref (SendInfoMsg s m w) a = deref w a"
  "deref (SendAnnouncementMsg s m w) a = deref w a" "deref (SendPMFrom s f m w) a = deref w a"
  "deref (Ping s m w) a = deref w a" "deref (Pong s m w) a = deref w a"
  by (simp_all add: deref_def)

lemma store_simps [simp]:
  "users (store u x w) = users w" "length (heap (store u x w)) = length (heap w)"
  "closed (store u x w) = closed w" "sent (store u x w) = sent w"
  by (simp_all add: store_def)

lemma deref_store [simp]:
  "deref (store u x w) a = (if a = u \<and> u < length (heap w) then x else deref w a)"
  by (cases "u < length (heap w)") (auto simp: deref_def store_def list_update_beyond)

lemma sockClose_simps [simp]:
  "users (sockClose c w) = users w" "heap (sockClose c w) = heap w"
  "deref (sockClose c w) a = deref w a" "sent (sockClose c w) = sent w"
  by (simp_all add: sockClose_def deref_def)

lemma BroadcastAction_sessions_frame [simp]:
  "heap (BroadcastAction_sessions s msg es w) = heap w"
  "users (BroadcastAction_sessions s msg es w) = users w"
  by (induction es arbitrary: w) simp_all

lemma BroadcastAction_users_frame [simp]:
  "heap (BroadcastAction_users s msg as w) = heap w"
  "users (BroadcastAction_users s msg as w) = users w"
  by (induction as arbitrary: w) simp_all

lemma BroadcastAction_frame [simp]:
  "heap (BroadcastAction s msg w) = heap w" "users (BroadcastAction s msg w) = users w"
  by (simp_all add: BroadcastAction_def)

lemma SendList_frame [simp]: "heap (SendList s w) = heap w" "users (SendList s w) = users w"
  by (simp_all add: SendList_def)

lemma SendRAW_sessions_frame [simp]:
  "heap (SendRAW_sessions s t raw es w) = heap w" "users (SendRAW_sessions s t raw es w) = users w"
  by (induction es arbitrary: w) simp_all

lemma SendRAW_loop_frame [simp]:
  "heap (SendRAW_loop s t raw as w) = heap w" "users (SendRAW_loop s t raw as w) = users w"
  by (induction as) simp_all

lemma SendRAW_frame [simp]: "heap (SendRAW s t raw w) = heap w" "users (SendRAW s t raw w) = users w"
  by (simp_all add: SendRAW_def)

lemma BroadcastMsg_sessions_frame:
  "BroadcastMsg_sessions s msg es w = Inr w' \<Longrightarrow> heap w' = heap w \<and> users w' = users w"
  by (induction es arbitrary: w) (auto split: if_splits option.splits)

lemma BroadcastMsg_users_frame:
  "BroadcastMsg_users s msg as w = Inr w' \<Longrightarrow> heap w' = heap w \<and> users w' = users w"
proof (induction as arbitrary: w)
  case Nil
  then show ?case by simp
next
  case (Cons a as)
  then show ?case
    by (auto split: sum.splits dest!: BroadcastMsg_sessions_frame)
qed

lemma BroadcastMsg_frame:
  "BroadcastMsg s msg w = Inr w' \<Longrightarrow> heap w' = heap w \<and> users w' = users w"
  unfolding BroadcastMsg_def by (rule BroadcastMsg_users_frame)

lemma SendPM_sessions_frame:
  "SendPM_sessions s msg es w = Inr w' \<Longrightarrow> heap w' = heap w \<and> users w' = users w"
  by (induction es arbitrary: w) (auto split: option.splits)

lemma flushPMs_frame:
  "flushPMs s pms w = Inr w' \<Longrightarrow> heap w' = heap w \<and> users w' = users w"
  by (induction pms arbitrary: w) (auto split: option.splits)

subsection \<open>Frames\<close>

lemma frame_refl [simp]: "frame w w"
  by (simp add: frame_def)

lemma frame_trans: "frame w w' \<Longrightarrow> frame w' w'' \<Longrightarrow> frame w w''"
  by (simp add: frame_def)

lemma frame_same: "heap w' = heap w \<Longrightarrow> users w' = users w \<Longrightarrow> frame w w'"
  by (simp add: frame_def deref_def)

lemma frame_store:
  "Username x = Username (deref w u) \<Longrightarrow> PasswordHash x = PasswordHash (deref w u) \<Longrightarrow>
   Ghost x = Ghost (deref w u) \<Longrightarrow> (Online (deref w u) \<longrightarrow> Online x) \<Longrightarrow>
   frame w (store u x w)"
  by (simp add: frame_def)

lemma frame_sockClose: "frame w (sockClose c w)"
  by (simp add: frame_def)

lemma SendPM_loop_frame: "SendPM_loop s t msg as w = Inr w' \<Longrightarrow> frame w w'"
proof (induction as)
  case Nil
  then show ?case by simp
next
  case (Cons a as)
  show ?case
  proof (cases "t = Username (deref w a)")
    case False
    with Cons show ?thesis by simp
  next
    case True
    show ?thesis
    proof (cases "Sessions (deref w a) = []")
      case True
      with \<open>t = Username (deref w a)\<close> Cons.prems show ?thesis
        by (auto intro!: frame_store)
    next
      case False
      with \<open>t = Username (deref w a)\<close> Cons.prems
      have "SendPM_sessions s msg (Sessions (deref w a)) w = Inr w'" by simp
      from SendPM_sessions_frame [OF this] show ?thesis by (simp add: frame_same)
    qed
  qed
qed

lemma SendPM_frame: "SendPM s t msg w = Inr w' \<Longrightarrow> frame w w'"
  unfolding SendPM_def by (rule SendPM_loop_frame)

lemma Close_body_frame: "frame w (Close_body s u a w)"
  by (simp add: Close_body_def frame_def Let_def)

lemma Close_loop_frame: "Close_loop s as w = Inr w' \<Longrightarrow> frame w w'"
  by (induction as) (auto simp: Close_body_frame split: option.splits if_splits)

lemma Close_frame: "Close s w = Inr w' \<Longrightarrow> frame w w'"
  unfolding Close_def by (rule Close_loop_frame)

lemma frame_grows: "frame w w' \<Longrightarrow> grows w w'"
  by (simp add: frame_def grows_def)

lemma grows_refl [simp]: "grows w w"
  by (simp add: grows_def)

lemma grows_trans: "grows w w' \<Longrightarrow> grows w' w'' \<Longrightarrow> grows w w''"
  by (auto simp: grows_def)

lemma sessionInv_grows: "sessionInv w s \<Longrightarrow> grows w w' \<Longrightarrow> sessionInv w' s"
  by (auto simp: sessionInv_def grows_def split: option.splits)

lemma registryInv_frame:
  assumes "frame w w'" and "registryInv w"
  shows "registryInv w'"
proof -
  from assms(1) have u: "users w' = users w" and l: "length (heap w') = length (heap w)"
    by (simp_all add: frame_def)
  from assms(1) have f: "\<And>a. a < length (heap w) \<Longrightarrow>
      Username (deref w' a) = Username (deref w a) \<and>
      PasswordHash (deref w' a) = PasswordHash (deref w a) \<and>
      Ghost (deref w' a) = Ghost (deref w a)"
    unfolding frame_def by blast
  from assms(2) have v: "\<And>a. a \<in> set (users w) \<Longrightarrow> a < length (heap w) \<and> PasswordHash (deref w a) \<noteq> []"
    unfolding registryInv_def by blast
  from assms(2) have d: "distinct (map (\<lambda>a. Username (deref w a)) (users w))"
    unfolding registryInv_def by blast
  from assms(2) have g: "\<And>a. a < length (heap w) \<Longrightarrow>
      \<not> Ghost (deref w a) \<and> (PasswordHash (deref w a) \<noteq> [] \<longrightarrow> a \<in> set (users w))"
    unfolding registryInv_def by blast
  have m: "map (\<lambda>a. Username (deref w' a)) (users w) = map (\<lambda>a. Username (deref w a)) (users w)"
    by (rule map_cong [OF refl]) (use v f in blast)
  have 1: "\<forall>a \<in> set (users w'). a < length (heap w') \<and> PasswordHash (deref w' a) \<noteq> []"
    unfolding u l using v f by metis
  have 2: "distinct (map (\<lambda>a. Username (deref w' a)) (users w'))"
    unfolding u m by (rule d)
  have 3: "\<forall>a < length (heap w'). \<not> Ghost (deref w' a) \<and>
        (PasswordHash (deref w' a) \<noteq> [] \<longrightarrow> a \<in> set (users w'))"
    unfolding u l using g f by metis
  from 1 2 3 show ?thesis unfolding registryInv_def by blast
qed

lemma frame_step:
  assumes "frame w w'" and "registryInv w" and "sessionInv w s"
  shows "registryInv w' \<and> sessionInv w' s \<and> grows w w'"
  using assms registryInv_frame sessionInv_grows frame_grows by blast

subsection \<open>Registry lookups and the mutations of the registry\<close>

lemma userExists_loop_iff:
  "userExists_loop w n as \<longleftrightarrow>
     (\<exists>a \<in> set as. n = Username (deref w a) \<and> PasswordHash (deref w a) \<noteq> [] \<and> \<not> Ghost (deref w a))"
  by (induction as) auto

lemma userExists_iff:
  "userExists n w \<longleftrightarrow>
     (\<exists>a \<in> set (users w). n = Username (deref w a) \<and> PasswordHash (deref w a) \<noteq> [] \<and> \<not> Ghost (deref w a))"
  by (simp add: userExists_def userExists_loop_iff)

lemma getUser_loop_Some:
  "getUser_loop w n as = Some r \<Longrightarrow>
     r \<in> set as \<and> Username (deref w r) = n \<and> PasswordHash (deref w r) \<noteq> [] \<and> \<not> Ghost (deref w r)"
  by (induction as) (auto split: if_splits)

lemma getUser_Some:
  "getUser n w = Some r \<Longrightarrow>
     r \<in> set (users w) \<and> Username (deref w r) = n \<and> PasswordHash (deref w r) \<noteq> [] \<and> \<not> Ghost (deref w r)"
  unfolding getUser_def by (rule getUser_loop_Some)

lemma userExists_loop_getUser:
  "userExists_loop w n as \<Longrightarrow> \<exists>r. getUser_loop w n as = Some r"
  by (induction as) (auto split: if_splits)

lemma userExists_getUser: "userExists n w \<Longrightarrow> \<exists>r. getUser n w = Some r"
  unfolding userExists_def getUser_def by (rule userExists_loop_getUser)

lemma userExists_same:
  "heap w' = heap w \<Longrightarrow> users w' = users w \<Longrightarrow> userExists n w' = userExists n w"
  by (simp add: userExists_iff deref_def)

lemma getUser_loop_same: "heap w' = heap w \<Longrightarrow> getUser_loop w' n as = getUser_loop w n as"
  by (induction as) (simp_all add: deref_def)

lemma getUser_same:
  "heap w' = heap w \<Longrightarrow> users w' = users w \<Longrightarrow> getUser n w' = getUser n w"
  using getUser_loop_same [of w' w n "users w"] by (simp add: getUser_def)

lemma registryInv_name_free:
  assumes "registryInv w" and "\<not> userExists n w"
  shows "n \<notin> (\<lambda>a. Username (deref w a)) ` set (users w)"
proof
  assume "n \<in> (\<lambda>a. Username (deref w a)) ` set (users w)"
  then obtain a where a: "a \<in> set (users w)" "n = Username (deref w a)" by blast
  from assms(1) a(1) have "a < length (heap w)" "PasswordHash (deref w a) \<noteq> []"
    unfolding registryInv_def by blast+
  moreover from assms(1) \<open>a < length (heap w)\<close> have "\<not> Ghost (deref w a)"
    unfolding registryInv_def by blast
  ultimately have "userExists n w" using a unfolding userExists_iff by blast
  with assms(2) show False by contradiction
qed

text \<open>Allocation of a candidate user.\<close>

lemma alloc_inv:
  assumes "registryInv w" and "PasswordHash x = []" and "\<not> Ghost x"
  shows "registryInv (w\<lparr>heap := heap w @ [x]\<rparr>)" and "grows w (w\<lparr>heap := heap w @ [x]\<rparr>)"
proof -
  let ?w = "w\<lparr>heap := heap w @ [x]\<rparr>"
  have old: "\<And>a. a < length (heap w) \<Longrightarrow> deref ?w a = deref w a"
    by (simp add: deref_def nth_append)
  have new: "deref ?w (length (heap w)) = x" by (simp add: deref_def)
  from assms(1) have v: "\<And>a. a \<in> set (users w) \<Longrightarrow> a < length (heap w) \<and> PasswordHash (deref w a) \<noteq> []"
    unfolding registryInv_def by blast
  from assms(1) have d: "distinct (map (\<lambda>a. Username (deref w a)) (users w))"
    unfolding registryInv_def by blast
  from assms(1) have g: "\<And>a. a < length (heap w) \<Longrightarrow>
      \<not> Ghost (deref w a) \<and> (PasswordHash (deref w a) \<noteq> [] \<longrightarrow> a \<in> set (users w))"
    unfolding registryInv_def by blast
  have m: "map (\<lambda>a. Username (deref ?w a)) (users w) = map (\<lambda>a. Username (deref w a)) (users w)"
    by (rule map_cong [OF refl]) (use v old in simp)
  have 1: "\<forall>a \<in> set (users ?w). a < length (heap ?w) \<and> PasswordHash (deref ?w a) \<noteq> []"
    using v old by (simp add: less_Suc_eq)
  have us: "users ?w = users w" by simp
  have 2: "distinct (map (\<lambda>a. Username (deref ?w a)) (users ?w))"
    unfolding us m by (rule d)
  have 3: "\<forall>a < length (heap ?w). \<not> Ghost (deref ?w a) \<and>
        (PasswordHash (deref ?w a) \<noteq> [] \<longrightarrow> a \<in> set (users ?w))"
  proof (intro allI impI)
    fix a assume "a < length (heap ?w)"
    then consider "a < length (heap w)" | "a = length (heap w)" by (auto simp: less_Suc_eq)
    then show "\<not> Ghost (deref ?w a) \<and> (PasswordHash (deref ?w a) \<noteq> [] \<longrightarrow> a \<in> set (users ?w))"
    proof cases
      case 1
      with g [of a] old [of a] show ?thesis by simp
    next
      case 2
      with new assms(2,3) show ?thesis by simp
    qed
  qed
  from 1 2 3 show "registryInv ?w" unfolding registryInv_def by blast
  show "grows w ?w" using old by (simp add: grows_def)
qed

text \<open>A new digest for a registered user.\<close>

lemma rehash_inv:
  assumes "registryInv w" and "u \<in> set (users w)" and "h \<noteq> []"
  shows "registryInv (store u ((deref w u)\<lparr>PasswordHash := h\<rparr>) w)"
    and "grows w (store u ((deref w u)\<lparr>PasswordHash := h\<rparr>) w)"
proof -
  let ?w = "store u ((deref w u)\<lparr>PasswordHash := h\<rparr>) w"
  from assms(1) have v: "\<And>a. a \<in> set (users w) \<Longrightarrow> a < length (heap w) \<and> PasswordHash (deref w a) \<noteq> []"
    unfolding registryInv_def by blast
  from assms(1) have d: "distinct (map (\<lambda>a. Username (deref w a)) (users w))"
    unfolding registryInv_def by blast
  from assms(1) have g: "\<And>a. a < length (heap w) \<Longrightarrow>
      \<not> Ghost (deref w a) \<and> (PasswordHash (deref w a) \<noteq> [] \<longrightarrow> a \<in> set (users w))"
    unfolding registryInv_def by blast
  have m: "map (\<lambda>a. Username (deref ?w a)) (users w) = map (\<lambda>a. Username (deref w a)) (users w)"
    by (rule map_cong [OF refl]) simp
  have 1: "\<forall>a \<in> set (users ?w). a < length (heap ?w) \<and> PasswordHash (deref ?w a) \<noteq> []"
    using v assms(3) by simp
  have us: "users ?w = users w" by simp
  have 2: "distinct (map (\<lambda>a. Username (deref ?w a)) (users ?w))"
    unfolding us m by (rule d)
  have 3: "\<forall>a < length (heap ?w). \<not> Ghost (deref ?w a) \<and>
        (PasswordHash (deref ?w a) \<noteq> [] \<longrightarrow> a \<in> set (users ?w))"
    using g assms(2) by simp
  from 1 2 3 show "registryInv ?w" unfolding registryInv_def by blast
  show "grows w ?w" by (simp add: grows_def)
qed

text \<open>Registration of a candidate whose name is free.\<close>

lemma register_inv:
  assumes "registryInv w" and "u < length (heap w)" and "PasswordHash (deref w u) = []"
    and "\<not> userExists (Username (deref w u)) w" and "h \<noteq> []"
  shows "registryInv ((store u ((deref w u)\<lparr>PasswordHash := h\<rparr>) w)\<lparr>users := users w @ [u]\<rparr>)"
    and "grows w ((store u ((deref w u)\<lparr>PasswordHash := h\<rparr>) w)\<lparr>users := users w @ [u]\<rparr>)"
proof -
  let ?w = "(store u ((deref w u)\<lparr>PasswordHash := h\<rparr>) w)\<lparr>users := users w @ [u]\<rparr>"
  have dr: "\<And>a. deref ?w a = (if a = u then (deref w u)\<lparr>PasswordHash := h\<rparr> else deref w a)"
    using assms(2) by (simp add: deref_def store_def)
  have len: "length (heap ?w) = length (heap w)" by (simp add: store_def)
  have us: "users ?w = users w @ [u]" by simp
  from assms(1) have v: "\<And>a. a \<in> set (users w) \<Longrightarrow> a < length (heap w) \<and> PasswordHash (deref w a) \<noteq> []"
    unfolding registryInv_def by blast
  from assms(1) have d: "distinct (map (\<lambda>a. Username (deref w a)) (users w))"
    unfolding registryInv_def by blast
  from assms(1) have g: "\<And>a. a < length (heap w) \<Longrightarrow>
      \<not> Ghost (deref w a) \<and> (PasswordHash (deref w a) \<noteq> [] \<longrightarrow> a \<in> set (users w))"
    unfolding registryInv_def by blast
  from v assms(3) have notin: "u \<notin> set (users w)" by blast
  have free: "Username (deref w u) \<notin> (\<lambda>a. Username (deref w a)) ` set (users w)"
    using assms(1,4) by (rule registryInv_name_free)
  have m: "map (\<lambda>a. Username (deref ?w a)) (users w) = map (\<lambda>a. Username (deref w a)) (users w)"
    by (rule map_cong [OF refl]) (simp add: dr)
  have 1: "\<forall>a \<in> set (users ?w). a < length (heap ?w) \<and> PasswordHash (deref ?w a) \<noteq> []"
    unfolding us len using v assms(2,5) by (auto simp: dr)
  have fu: "Username (deref ?w u) = Username (deref w u)" by (simp add: dr)
  have "distinct (map (\<lambda>a. Username (deref w a)) (users w) @ [Username (deref w u)])"
    using d free by simp
  then have 2: "distinct (map (\<lambda>a. Username (deref ?w a)) (users ?w))"
    unfolding us by (simp only: map_append list.map m fu)
  have 3: "\<forall>a < length (heap ?w). \<not> Ghost (deref ?w a) \<and>
        (PasswordHash (deref ?w a) \<noteq> [] \<longrightarrow> a \<in> set (users ?w))"
    unfolding us len using g by (auto simp: dr)
  from 1 2 3 show "registryInv ?w" unfolding registryInv_def by blast
  show "grows w ?w" unfolding grows_def len us by (auto simp: dr)
qed

text \<open>Renaming to a free name.\<close>

lemma rename_inv:
  assumes "registryInv w" and "\<not> userExists n w"
  shows "registryInv (store u ((deref w u)\<lparr>Username := n\<rparr>) w)"
    and "grows w (store u ((deref w u)\<lparr>Username := n\<rparr>) w)"
proof -
  let ?w = "store u ((deref w u)\<lparr>Username := n\<rparr>) w"
  from assms(1) have v: "\<And>a. a \<in> set (users w) \<Longrightarrow> a < length (heap w) \<and> PasswordHash (deref w a) \<noteq> []"
    unfolding registryInv_def by blast
  from assms(1) have d: "distinct (map (\<lambda>a. Username (deref w a)) (users w))"
    unfolding registryInv_def by blast
  from assms(1) have g: "\<And>a. a < length (heap w) \<Longrightarrow>
      \<not> Ghost (deref w a) \<and> (PasswordHash (deref w a) \<noteq> [] \<longrightarrow> a \<in> set (users w))"
    unfolding registryInv_def by blast
  have free: "n \<notin> (\<lambda>a. Username (deref w a)) ` set (users w)"
    using assms by (rule registryInv_name_free)
  have 1: "\<forall>a \<in> set (users ?w). a < length (heap ?w) \<and> PasswordHash (deref ?w a) \<noteq> []"
    using v by simp
  have 2: "distinct (map (\<lambda>a. Username (deref ?w a)) (users ?w))"
  proof (cases "u \<in> set (users w) \<and> u < length (heap w)")
    case False
    then have eq: "map (\<lambda>a. Username (deref ?w a)) (users w) = map (\<lambda>a. Username (deref w a)) (users w)"
      by (intro map_cong [OF refl]) auto
    have us: "users ?w = users w" by simp
    show ?thesis unfolding us eq by (rule d)
  next
    case True
    have inj: "inj_on (\<lambda>a. Username (deref w a)) (set (users w))" and du: "distinct (users w)"
      using d by (simp_all add: distinct_map)
    have "inj_on (\<lambda>a. Username (deref ?w a)) (set (users w))"
    proof (rule inj_onI)
      fix a b assume ab: "a \<in> set (users w)" "b \<in> set (users w)"
        "Username (deref ?w a) = Username (deref ?w b)"
      show "a = b"
      proof (cases "a = u")
        case au: True
        show ?thesis
        proof (cases "b = u")
          case True with au show ?thesis by simp
        next
          case False
          with au ab True free show ?thesis by (auto simp: image_iff)
        qed
      next
        case au: False
        show ?thesis
        proof (cases "b = u")
          case True
          with au ab \<open>u \<in> set (users w) \<and> u < length (heap w)\<close> free show ?thesis
            by (auto simp: image_iff)
        next
          case False
          with au ab inj show ?thesis by (auto dest: inj_onD)
        qed
      qed
    qed
    with du show ?thesis by (simp add: distinct_map)
  qed
  have 3: "\<forall>a < length (heap ?w). \<not> Ghost (deref ?w a) \<and>
        (PasswordHash (deref ?w a) \<noteq> [] \<longrightarrow> a \<in> set (users ?w))"
    using g by simp
  from 1 2 3 show "registryInv ?w" unfolding registryInv_def by blast
  show "grows w ?w" by (simp add: grows_def)
qed

lemma authFinish_frame:
  assumes "authFinish s u w = Inr (s', w')"
  shows "frame w w'" and "s' = s\<lparr>Authenticated := True\<rparr>"
    and "u < length (heap w) \<Longrightarrow> Online (deref w' u)"
proof -
  define w1 where "w1 = store u ((deref w u)\<lparr>Sessions := Sessions (deref w u) @ [s]\<rparr>) w"
  define w2 where "w2 = store u ((deref w1 u)\<lparr>Online := True\<rparr>) w1"
  define w3 where "w3 = store u ((deref w2 u)\<lparr>Away := False\<rparr>) w2"
  define w4 where "w4 = store u ((deref w3 u)\<lparr>AwayReason := []\<rparr>) w3"
  define s1 where "s1 = s\<lparr>Authenticated := True\<rparr>"
  define w5 where "w5 = SendMsg s1 ''Message of the Day'' motdMsg (SendAnnouncementMsg s1 joinMsg (SendList s1 w4))"
  from assms have fl: "flushPMs s1 (PendingPMs (deref w5 u)) w5 = Inr w'" and s': "s' = s1"
    unfolding authFinish_def Let_def w1_def w2_def w3_def w4_def w5_def s1_def
    by (auto split: sum.splits)
  have f4: "frame w w4" unfolding w4_def w3_def w2_def w1_def by (simp add: frame_def)
  have h5: "heap w5 = heap w4" "users w5 = users w4" unfolding w5_def by simp_all
  from flushPMs_frame [OF fl] h5 have h': "heap w' = heap w4" "users w' = users w4" by simp_all
  then have "frame w4 w'" by (rule frame_same)
  with f4 show "frame w w'" by (rule frame_trans)
  from s' show "s' = s\<lparr>Authenticated := True\<rparr>" by (simp add: s1_def)
  assume "u < length (heap w)"
  then have "Online (deref w4 u)" unfolding w4_def w3_def w2_def w1_def by simp
  with h'(1) show "Online (deref w' u)" by (simp add: deref_def)
qed

subsection \<open>Every command preserves the invariant\<close>

lemma deref_broadcasts [simp]:
  "deref (BroadcastAction s msg w) a = deref w a" "deref (SendList s w) a = deref w a"
  "deref (SendRAW s t raw w) a = deref w a"
  by (simp_all add: deref_def)

lemma cmdJOIN_inv:
  assumes ri: "registryInv w" and si: "sessionInv w s" and j: "cmdJOIN tok args s w = Inr (s', w')"
  shows "registryInv w' \<and> sessionInv w' s' \<and> grows w w'"
proof (cases "(case User s of None \<Rightarrow> False | Some u \<Rightarrow> Online (deref w u)) \<or> length args < 1")
  case True
  with j have "s' = s" "w' = w" by (auto simp: cmdJOIN_def split: if_splits)
  with ri si show ?thesis by simp
next
  case False
  define user where "user = (if length args > 1 then (newUser (args ! 0))\<lparr>About := args ! 1\<rparr> else newUser (args ! 0))"
  define w1 where "w1 = w\<lparr>heap := heap w @ [user]\<rparr>"
  define s1 where "s1 = s\<lparr>User := Some (length (heap w))\<rparr>"
  define w2 where "w2 = Ping s1 tok w1"
  have u: "PasswordHash user = []" "\<not> Ghost user" by (simp_all add: user_def newUser_def)
  from alloc_inv [OF ri u] have r1: "registryInv w1" and g1: "grows w w1" by (simp_all add: w1_def)
  have h2: "heap w2 = heap w1" "users w2 = users w1" by (simp_all add: w2_def)
  have l1: "length (heap w1) = Suc (length (heap w))" "users w1 = users w" by (simp_all add: w1_def)
  from si False have na: "\<not> Authenticated s" by (auto simp: sessionInv_def split: option.splits)
  show ?thesis
  proof (cases "userExists (args ! 0) w2")
    case True
    then obtain r where r: "getUser (args ! 0) w2 = Some r" using userExists_getUser by blast
    from j False True r have s': "s' = s1\<lparr>User := Some r\<rparr>" and "\<exists>m. w' = SendAuthMsg s' m w2"
      by (auto simp: cmdJOIN_def Let_def user_def w1_def s1_def w2_def)
    then have h': "heap w' = heap w1" "users w' = users w1" using h2 by auto
    then have f: "frame w1 w'" by (rule frame_same)
    from getUser_Some [OF r] h2 l1 have "r \<in> set (users w)" by simp
    with ri have "r < length (heap w)" unfolding registryInv_def by blast
    with h' l1 na have "sessionInv w' s'" by (simp add: sessionInv_def s' s1_def)
    moreover from f r1 have "registryInv w'" by (rule registryInv_frame)
    moreover from g1 frame_grows [OF f] have "grows w w'" by (rule grows_trans)
    ultimately show ?thesis by blast
  next
    case no: False
    from j False no have s': "s' = s1" and "\<exists>m. w' = SendAuthMsg s' m w2"
      by (auto simp: cmdJOIN_def Let_def user_def w1_def s1_def w2_def)
    then have h': "heap w' = heap w1" "users w' = users w1" using h2 by auto
    then have f: "frame w1 w'" by (rule frame_same)
    from h' l1 na have "sessionInv w' s'" by (simp add: sessionInv_def s' s1_def)
    moreover from f r1 have "registryInv w'" by (rule registryInv_frame)
    moreover from g1 frame_grows [OF f] have "grows w w'" by (rule grows_trans)
    ultimately show ?thesis by blast
  qed
qed

lemma cmdAUTH_inv:
  assumes hashOK: "\<forall>p h. H p = Some h \<longrightarrow> h \<noteq> []"
    and ri: "registryInv w" and si: "sessionInv w s"
    and a: "cmdAUTH H V args s w = Inr (s', w')"
  shows "registryInv w' \<and> sessionInv w' s' \<and> grows w w'"
proof (cases "length args < 1")
  case True
  with a have "s' = s" "w' = w" by (auto simp: cmdAUTH_def)
  with ri si show ?thesis by simp
next
  case args: False
  show ?thesis
  proof (cases "Authenticated s")
    case True
    with si obtain u where u: "User s = Some u" "u \<in> set (users w)"
      by (auto simp: sessionInv_def split: option.splits)
    show ?thesis
    proof (cases "H (args ! 0)")
      case None
      with a args True have "s' = s" and "\<exists>m. w' = SendAuthMsg s m w"
        by (auto simp: cmdAUTH_def)
      then have "s' = s" "frame w w'" by (auto intro: frame_same)
      with frame_step [OF _ ri si] show ?thesis by simp
    next
      case (Some h)
      with hashOK have h: "h \<noteq> []" by blast
      define w1 where "w1 = store u ((deref w u)\<lparr>PasswordHash := h\<rparr>) w"
      from rehash_inv [OF ri u(2) h] have r1: "registryInv w1" and g1: "grows w w1"
        by (simp_all add: w1_def)
      from a args True Some u have s': "s' = s" and "\<exists>m. w' = SendAuthMsg s m w1"
        by (auto simp: cmdAUTH_def w1_def)
      then have "frame w1 w'" by (auto intro: frame_same)
      from registryInv_frame [OF this r1] grows_trans [OF g1 frame_grows [OF this]]
      have "registryInv w'" "grows w w'" .
      with sessionInv_grows [OF si] s' show ?thesis by simp
    qed
  next
    case na: False
    from a args na obtain u where u: "User s = Some u"
      by (cases "User s") (auto simp: cmdAUTH_def)
    with si have ul: "u < length (heap w)" by (simp add: sessionInv_def)
    show ?thesis
    proof (cases "PasswordHash (deref w u) \<noteq> []")
      case True
      show ?thesis
      proof (cases "V (PasswordHash (deref w u)) (args ! 0)")
        case False
        with a args na u True have "s' = s" and "\<exists>m. w' = SendAuthMsg s m w"
          by (auto simp: cmdAUTH_def)
        then have "s' = s" "frame w w'" by (auto intro: frame_same)
        with frame_step [OF _ ri si] show ?thesis by simp
      next
        case ok: True
        with a args na u True obtain m where fin: "authFinish s u (SendAuthMsg s m w) = Inr (s', w')"
          by (auto simp: cmdAUTH_def)
        have f0: "frame w (SendAuthMsg s m w)" by (simp add: frame_same)
        from authFinish_frame [OF fin] ul
        have f1: "frame (SendAuthMsg s m w) w'" and s': "s' = s\<lparr>Authenticated := True\<rparr>"
          and on: "Online (deref w' u)" by simp_all
        from frame_trans [OF f0 f1] have f: "frame w w'" .
        from ri ul True have "u \<in> set (users w)" unfolding registryInv_def by blast
        with f ul on u have "sessionInv w' s'" by (simp add: sessionInv_def s' frame_def)
        with registryInv_frame [OF f ri] frame_grows [OF f] show ?thesis by simp
      qed
    next
      case unreg: False
      show ?thesis
      proof (cases "userExists (Username (deref w u)) w")
        case True
        with a args na u unreg have "s' = s" and "\<exists>m. w' = SendAuthMsg s m w"
          by (auto simp: cmdAUTH_def)
        then have "s' = s" "frame w w'" by (auto intro: frame_same)
        with frame_step [OF _ ri si] show ?thesis by simp
      next
        case free: False
        show ?thesis
        proof (cases "H (args ! 0)")
          case None
          with a args na u unreg free have "s' = s" and "\<exists>m. w' = SendAuthMsg s m w"
            by (auto simp: cmdAUTH_def)
          then have "s' = s" "frame w w'" by (auto intro: frame_same)
          with frame_step [OF _ ri si] show ?thesis by simp
        next
          case (Some h)
          with hashOK have h: "h \<noteq> []" by blast
          define w1 where "w1 = (store u ((deref w u)\<lparr>PasswordHash := h\<rparr>) w)\<lparr>users := users w @ [u]\<rparr>"
          from unreg have e: "PasswordHash (deref w u) = []" by simp
          from register_inv [OF ri ul e free h] have r1: "registryInv w1" and g1: "grows w w1"
            by (simp_all add: w1_def)
          have l1: "length (heap w1) = length (heap w)" "users w1 = users w @ [u]"
            by (simp_all add: w1_def)
          from a args na u unreg free Some
          obtain m1 m2 where fin: "authFinish s u (BroadcastAction s m2 (SendAuthMsg s m1 w1)) = Inr (s', w')"
            by (auto simp: cmdAUTH_def Let_def w1_def)
          let ?w3 = "BroadcastAction s m2 (SendAuthMsg s m1 w1)"
          have f0: "frame w1 ?w3" by (simp add: frame_same)
          have l3: "length (heap ?w3) = length (heap w)" using l1 by simp
          from authFinish_frame [OF fin] ul l3
          have f1: "frame ?w3 w'" and s': "s' = s\<lparr>Authenticated := True\<rparr>"
            and on: "Online (deref w' u)" by simp_all
          from frame_trans [OF f0 f1] have f: "frame w1 w'" .
          with l1 ul on u have "sessionInv w' s'" by (simp add: sessionInv_def s' frame_def)
          with registryInv_frame [OF f r1] grows_trans [OF g1 frame_grows [OF f]]
          show ?thesis by simp
        qed
      qed
    qed
  qed
qed

lemma cmdNAME_inv:
  assumes ri: "registryInv w" and si: "sessionInv w s"
    and a: "cmdNAME args s w = Inr (s', w')"
  shows "registryInv w' \<and> sessionInv w' s' \<and> grows w w'"
proof (cases "length args < 2")
  case True
  with a have "s' = s" "w' = w" by (auto simp: cmdNAME_def)
  with ri si show ?thesis by simp
next
  case args: False
  from a args obtain u where u: "User s = Some u"
    by (cases "User s") (auto simp: cmdNAME_def)
  show ?thesis
  proof (cases "Username (deref w u) \<noteq> args ! 0")
    case True
    with a args u have "s' = s" "w' = w" by (auto simp: cmdNAME_def)
    with ri si show ?thesis by simp
  next
    case same: False
    show ?thesis
    proof (cases "userExists (args ! 1) w")
      case True
      with a args u same have "s' = s" and "(\<exists>m. w' = SendServerMsg s m w) \<or> (\<exists>m. w' = SendAuthMsg s m w)"
        by (auto simp: cmdNAME_def split: if_splits)
      then have "s' = s" "frame w w'" by (auto intro: frame_same)
      with frame_step [OF _ ri si] show ?thesis by simp
    next
      case free: False
      define w1 where "w1 = store u ((deref w u)\<lparr>Username := args ! 1\<rparr>) w"
      from rename_inv [OF ri free] have r1: "registryInv w1" and g1: "grows w w1"
        by (simp_all add: w1_def)
      from a args u same free have s': "s' = s"
        and "(\<exists>m. w' = SendList s (BroadcastAction s m w1)) \<or> (\<exists>m. w' = SendAnnouncementMsg s m w1)"
        by (auto simp: cmdNAME_def Let_def w1_def split: if_splits)
      then have "frame w1 w'" by (auto intro: frame_same)
      from registryInv_frame [OF this r1] grows_trans [OF g1 frame_grows [OF this]]
      have "registryInv w'" "grows w w'" .
      with sessionInv_grows [OF si] s' show ?thesis by simp
    qed
  qed
qed

lemma cmdQUIT_frame: "cmdQUIT s w = Inr (s', w') \<Longrightarrow> s' = s \<and> frame w w'"
  by (auto simp: cmdQUIT_def split: sum.splits dest: Close_frame)

lemma cmdMSG_frame: "cmdMSG args s w = Inr (s', w') \<Longrightarrow> s' = s \<and> frame w w'"
  by (auto simp: cmdMSG_def split: if_splits option.splits sum.splits
        dest!: BroadcastMsg_frame intro: frame_same)

lemma cmdPM_frame: "cmdPM args s w = Inr (s', w') \<Longrightarrow> s' = s \<and> frame w w'"
  by (auto simp: cmdPM_def split: if_splits sum.splits dest: SendPM_frame intro: frame_same)

lemma cmdLIST_frame: "cmdLIST s w = Inr (s', w') \<Longrightarrow> s' = s \<and> frame w w'"
  by (auto simp: cmdLIST_def split: if_splits intro: frame_same)

lemma cmdINFO_frame: "cmdINFO args s w = Inr (s', w') \<Longrightarrow> s' = s \<and> frame w w'"
  by (auto simp: cmdINFO_def Let_def split: if_splits option.splits intro: frame_same)

lemma cmdRAW_frame: "cmdRAW args s w = Inr (s', w') \<Longrightarrow> s' = s \<and> frame w w'"
  by (auto simp: cmdRAW_def split: if_splits option.splits intro: frame_same)

lemma cmdAWAY_frame: "cmdAWAY args s w = Inr (s', w') \<Longrightarrow> s' = s \<and> frame w w'"
  by (auto simp: cmdAWAY_def Let_def frame_def split: option.splits if_splits)

lemma dispatch_inv:
  assumes hashOK: "\<forall>p h. H p = Some h \<longrightarrow> h \<noteq> []"
    and ri: "registryInv w" and si: "sessionInv w s"
    and d: "dispatch H V tok cmd args s w = Inr (s', w')"
  shows "registryInv w' \<and> sessionInv w' s' \<and> grows w w'"
proof -
  consider (join) "cmd = ''JOIN''" | (auth) "cmd = ''AUTH''" | (name) "cmd = ''NAME''"
    | (other) "cmd \<noteq> ''JOIN''" "cmd \<noteq> ''AUTH''" "cmd \<noteq> ''NAME''" by blast
  then show ?thesis
  proof cases
    case join
    with d have "cmdJOIN tok args s w = Inr (s', w')" by (simp add: dispatch_def)
    with ri si show ?thesis by (rule cmdJOIN_inv)
  next
    case auth
    with d have "cmdAUTH H V args s w = Inr (s', w')" by (simp add: dispatch_def)
    with hashOK ri si show ?thesis by (rule cmdAUTH_inv)
  next
    case name
    with d have "cmdNAME args s w = Inr (s', w')" by (simp add: dispatch_def)
    with ri si show ?thesis by (rule cmdNAME_inv)
  next
    case other
    with d have "s' = s \<and> frame w w'"
      by (auto simp: dispatch_def split: if_splits
            dest: cmdQUIT_frame cmdMSG_frame cmdPM_frame cmdLIST_frame cmdINFO_frame
                  cmdRAW_frame cmdAWAY_frame
            intro: frame_same)
    with frame_step [OF _ ri si] show ?thesis by simp
  qed
qed

lemma handlePackets_inv:
  assumes hashOK: "\<forall>p h. H p = Some h \<longrightarrow> h \<noteq> []"
  shows "registryInv w \<Longrightarrow> sessionInv w s \<Longrightarrow> handlePackets H V tok ps s w = Inr (s', w')
    \<Longrightarrow> registryInv w' \<and> sessionInv w' s' \<and> grows w w'"
proof (induction ps arbitrary: s w)
  case Nil
  then show ?case by simp
next
  case (Cons p ps)
  show ?case
  proof (cases "p = [] \<or> length (Split p [SOH]) \<le> 0")
    case True
    with Cons.prems have "handlePackets H V tok ps s w = Inr (s', w')" by (auto split: if_splits)
    with Cons.IH Cons.prems(1,2) show ?thesis by blast
  next
    case False
    with Cons.prems(3) obtain s1 w1 where
      d: "dispatch H V tok (fst (decodePacket p)) (snd (decodePacket p)) s w = Inr (s1, w1)"
      and r: "handlePackets H V tok ps s1 w1 = Inr (s', w')"
      by (auto split: sum.splits)
    from dispatch_inv [OF hashOK Cons.prems(1,2) d]
    have 1: "registryInv w1" "sessionInv w1 s1" "grows w w1" by simp_all
    from Cons.IH [OF 1(1,2) r] have "registryInv w'" "sessionInv w' s'" "grows w1 w'" by simp_all
    with 1(3) show ?thesis by (blast intro: grows_trans)
  qed
qed

lemma handleRead_inv:
  assumes "\<forall>p h. H p = Some h \<longrightarrow> h \<noteq> []" and "registryInv w" and "sessionInv w s"
    and "handleRead H V tok buf s w = Inr (s', w')"
  shows "registryInv w' \<and> sessionInv w' s' \<and> grows w w'"
proof (cases "length buf \<le> 0")
  case True
  with assms show ?thesis by (simp add: handleRead_def)
next
  case False
  with assms(4) have "handlePackets H V tok (Split buf CRLF) s w = Inr (s', w')"
    by (simp add: handleRead_def)
  from handlePackets_inv [OF assms(1,2,3) this] show ?thesis .
qed

lemma systemInv_init: "systemInv init"
  by (simp add: systemInv_def init_def registryInv_def)

lemma systemInv_update:
  assumes "systemInv sys" and "registryInv w'" and "grows (world sys) w'"
    and "case t of None \<Rightarrow> True | Some s' \<Rightarrow> sessionInv w' s'"
  shows "systemInv (sys\<lparr>world := w', workers := (workers sys)[i := t]\<rparr>)"
proof -
  have "sessionInv w' x" if "Some x \<in> set ((workers sys)[i := t])" for x
  proof -
    from that set_update_subset_insert [of "workers sys" i t]
    have "Some x = t \<or> Some x \<in> set (workers sys)" by auto
    then show ?thesis
    proof
      assume "Some x = t" with assms(4) show ?thesis by (cases t) auto
    next
      assume "Some x \<in> set (workers sys)"
      with assms(1) have "sessionInv (world sys) x" by (simp add: systemInv_def)
      then show ?thesis using assms(3) by (rule sessionInv_grows)
    qed
  qed
  with assms(2) show ?thesis by (simp add: systemInv_def)
qed

lemma readFailed_inv:
  assumes "systemInv sys" and "readFailed i s sys = Inr sys'"
  shows "systemInv sys'"
proof -
  from assms(2) obtain w' where c: "Close s (world sys) = Inr w'"
    and sys': "sys' = sys\<lparr>world := w', workers := (workers sys)[i := None]\<rparr>"
    by (auto simp: readFailed_def split: sum.splits)
  from Close_frame [OF c] have f: "frame (world sys) w'" .
  from assms(1) have "registryInv (world sys)" by (simp add: systemInv_def)
  with f have "registryInv w'" by (rule registryInv_frame)
  with assms(1) frame_grows [OF f] show ?thesis unfolding sys' by (intro systemInv_update) simp_all
qed

lemma step_inv:
  assumes hashOK: "\<forall>p h. H p = Some h \<longrightarrow> h \<noteq> []"
    and inv: "systemInv sys" and st: "step H V ev sys = Inr sys'" and at: "atomic ev"
  shows "systemInv sys'"
proof (cases ev)
  case (Accept la ra)
  with st have sys': "sys' = sys\<lparr>workers := workers sys @
       [Some \<lparr>User = None, Authenticated = False, Socket = length (workers sys),
              LocalAddr = la, RemoteAddr = ra\<rparr>]\<rparr>"
    by (simp add: step_def)
  from inv show ?thesis unfolding sys' by (auto simp: systemInv_def sessionInv_def)
next
  case (Read i tok buf)
  show ?thesis
  proof (cases "i < length (workers sys) \<and> map_of (preempted sys) i = None")
    case False
    with st Read have "sys' = sys" by (auto simp: step_def)
    with inv show ?thesis by simp
  next
    case True
    then have il: "i < length (workers sys)" by simp
    show ?thesis
    proof (cases "workers sys ! i")
      case None
      with st Read True have "sys' = sys" by (simp add: step_def)
      with inv show ?thesis by simp
    next
      case (Some s)
      with il have mem: "Some s \<in> set (workers sys)" by (metis nth_mem)
      show ?thesis
      proof (cases "Socket s \<in> set (closed (world sys))")
        case closed: True
        with st Read True Some have "readFailed i s sys = Inr sys'"
          by (simp add: step_def)
        with inv show ?thesis by (rule readFailed_inv)
      next
        case False
        with st Read True Some obtain s' w' where
          h: "handleRead H V tok buf s (world sys) = Inr (s', w')"
          and sys': "sys' = sys\<lparr>world := w', workers := (workers sys)[i := Some s']\<rparr>"
          by (auto simp: step_def split: sum.splits)
        from inv mem have "registryInv (world sys)" "sessionInv (world sys) s"
          by (simp_all add: systemInv_def)
        from handleRead_inv [OF hashOK this h]
        have "registryInv w'" "sessionInv w' s'" "grows (world sys) w'" by simp_all
        with inv show ?thesis unfolding sys' by (intro systemInv_update) simp_all
      qed
    qed
  qed
next
  case (ReadError i)
  show ?thesis
  proof (cases "i < length (workers sys) \<and> map_of (preempted sys) i = None")
    case False
    with st ReadError have "sys' = sys" by (auto simp: step_def)
    with inv show ?thesis by simp
  next
    case True
    show ?thesis
    proof (cases "workers sys ! i")
      case None
      with st ReadError True have "sys' = sys" by (simp add: step_def)
      with inv show ?thesis by simp
    next
      case (Some s)
      with st ReadError True have "readFailed i s sys = Inr sys'" by (simp add: step_def)
      with inv show ?thesis by (rule readFailed_inv)
    qed
  qed
next
  case (AuthBegin i password)
  with at show ?thesis by simp
next
  case (AuthResume i)
  with at show ?thesis by simp
qed

lemma run_inv:
  assumes hashOK: "\<forall>p h. H p = Some h \<longrightarrow> h \<noteq> []"
  shows "systemInv sys \<Longrightarrow> list_all atomic evs \<Longrightarrow> run H V evs sys = Inr sys' \<Longrightarrow> systemInv sys'"
proof (induction evs arbitrary: sys)
  case Nil
  then show ?case by simp
next
  case (Cons ev evs)
  from Cons.prems(3) obtain sys1 where 1: "step H V ev sys = Inr sys1"
    and 2: "run H V evs sys1 = Inr sys'" by (auto split: sum.splits)
  from Cons.prems(2) have a: "atomic ev" "list_all atomic evs" by simp_all
  from step_inv [OF hashOK Cons.prems(1) 1 a(1)] have "systemInv sys1" .
  from Cons.IH [OF this a(2) 2] show ?case .
qed

lemma registryInv_unique: "registryInv w \<Longrightarrow> uniqueRegistered w"
proof -
  assume ri: "registryInv w"
  have "a = b" if "a < length (heap w)" "b < length (heap w)"
    "PasswordHash (deref w a) \<noteq> []" "PasswordHash (deref w b) \<noteq> []"
    "Username (deref w a) = Username (deref w b)" for a b
  proof -
    from ri that have ab: "a \<in> set (users w)" "b \<in> set (users w)"
      unfolding registryInv_def by blast+
    from ri have "inj_on (\<lambda>a. Username (deref w a)) (set (users w))"
      unfolding registryInv_def by (simp add: distinct_map)
    from inj_onD [OF this _ ab] that(5) show ?thesis by simp
  qed
  then show ?thesis unfolding uniqueRegistered_def by blast
qed

lemma register_taken_fails:
  assumes "\<not> Authenticated s" and "User s = Some u" and "PasswordHash (deref w u) = []"
    and "userExists (Username (deref w u)) w" and "args \<noteq> []"
  shows "\<exists>w'. dispatch H V tok ''AUTH'' args s w = Inr (s, w') \<and> users w' = users w \<and> heap w' = heap w"
  using assms by (cases args) (auto simp: dispatch_def cmdAUTH_def)

lemma result_cases: "(case r of Inl e \<Rightarrow> False | Inr x \<Rightarrow> P x) \<Longrightarrow> \<exists>x. r = Inr x \<and> P x"
  by (cases r) auto

lemma collisionWorld_reachable:
  "(case run exampleHash exampleVerify collisionEvents init of
     Inl e \<Rightarrow> False
   | Inr sys \<Rightarrow> (world sys)\<lparr>sent := []\<rparr> = collisionWorld
       \<and> workers sys = [Some aliceSession, Some candidateSession])"
  by code_simp

text \<open>The two parts of \<open>authCheck\<close> and \<open>registerCommit\<close> make up the AUTH case.\<close>

lemma cmdAUTH_split:
  "cmdAUTH H V args s w =
     (case authCheck H V args s w of
        Finished r \<Rightarrow> r
      | Registering hashedPassword u \<Rightarrow> registerCommit hashedPassword s u w)"
  by (simp add: cmdAUTH_def authCheck_def registerCommit_def Let_def split: option.splits)

text \<open>What holds of the registry: let the digest of a password never be empty (as with
  bcrypt). In every state that the server reaches from its start by events in which every
  read is handled without another worker running in between, two user objects with
  non-empty digest and the same username are the same object. And AUTH from an
  unauthenticated session whose user has no digest and whose username is registered does
  not register: the command returns with the session, the registry slice and the heap (so
  also the candidate user) as they were; only a message is written.\<close>

lemma atomic_runs_unique:
  assumes "\<forall>p h. H p = Some h \<longrightarrow> h \<noteq> []" and "list_all atomic evs"
    and "run H V evs init = Inr sys"
  shows "uniqueRegistered (world sys)"
proof -
  from run_inv [OF assms(1) systemInv_init assms(2,3)] have "registryInv (world sys)"
    by (simp add: systemInv_def)
  then show ?thesis by (rule registryInv_unique)
qed

text \<open>C4: the code at the failing input. Two connections join as alice while the name is
  free. Both send AUTH; each worker finds the name free (line 698) and computes its digest,
  and only then do the two store their digests and append their users (lines 708 and 709).
  The registry then holds two users with non-empty digest and the username alice, and both
  sessions are authenticated.\<close>

theorem two_workers_register_one_name:
  "(case run exampleHash exampleVerify raceEvents init of
     Inl e \<Rightarrow> False
   | Inr sys \<Rightarrow>
       users (world sys) = [0, 1] \<and> length (heap (world sys)) = 2
       \<and> map (\<lambda>a. Username (deref (world sys) a)) (users (world sys)) = [''alice'', ''alice'']
       \<and> map (\<lambda>a. PasswordHash (deref (world sys) a)) (users (world sys))
           = [''$2a$secret'', ''$2a$other'']
       \<and> map (map_option Authenticated) (workers sys) = [Some True, Some True]
       \<and> map (map_option User) (workers sys) = [Some (Some 0), Some (Some 1)])"
  by code_simp

lemma race_state_facts:
  "(case run exampleHash exampleVerify raceEvents init of
     Inl e \<Rightarrow> False
   | Inr sys \<Rightarrow>
       length (heap (world sys)) = 2
       \<and> Username (deref (world sys) 0) = Username (deref (world sys) 1)
       \<and> PasswordHash (deref (world sys) 0) \<noteq> [] \<and> PasswordHash (deref (world sys) 1) \<noteq> [])"
  by code_simp

lemma race_breaks_uniqueness:
  "\<exists>sys. run exampleHash exampleVerify raceEvents init = Inr sys \<and> \<not> uniqueRegistered (world sys)"
proof -
  from result_cases [OF race_state_facts] obtain sys where
    r: "run exampleHash exampleVerify raceEvents init = Inr sys"
    and l: "length (heap (world sys)) = 2"
    and n: "Username (deref (world sys) 0) = Username (deref (world sys) 1)"
    and h: "PasswordHash (deref (world sys) 0) \<noteq> []" "PasswordHash (deref (world sys) 1) \<noteq> []"
    by blast
  have "\<not> uniqueRegistered (world sys)"
  proof
    assume "uniqueRegistered (world sys)"
    then have u: "\<And>a b. a < 2 \<Longrightarrow> b < 2 \<Longrightarrow> PasswordHash (deref (world sys) a) \<noteq> [] \<Longrightarrow>
        PasswordHash (deref (world sys) b) \<noteq> [] \<Longrightarrow>
        Username (deref (world sys) a) = Username (deref (world sys) b) \<Longrightarrow> a = b"
      unfolding uniqueRegistered_def l by blast
    from u [of 0 1] n h show False by simp
  qed
  with r show ?thesis by blast
qed

subsection \<open>Pending private messages\<close>

lemma SendPM_loop_enqueue:
  "a \<in> set as \<Longrightarrow> distinct (map (\<lambda>a. Username (deref w a)) as) \<Longrightarrow> Username (deref w a) = t \<Longrightarrow>
   Sessions (deref w a) = [] \<Longrightarrow>
   SendPM_loop s t msg as w =
     Inr (store a ((deref w a)\<lparr>PendingPMs := PendingPMs (deref w a) @ [\<lparr>PmUser = User s, Message = msg\<rparr>]\<rparr>) w)"
proof (induction as)
  case Nil
  then show ?case by simp
next
  case (Cons b as)
  show ?case
  proof (cases "b = a")
    case True
    with Cons.prems show ?thesis by simp
  next
    case False
    with Cons.prems have in_as: "a \<in> set as" by simp
    have "Username (deref w b) \<noteq> t"
    proof
      assume eq: "Username (deref w b) = t"
      from Cons.prems have notin: "Username (deref w b) \<notin> (\<lambda>a. Username (deref w a)) ` set as"
        by simp
      from in_as have "(\<lambda>a. Username (deref w a)) a \<in> (\<lambda>a. Username (deref w a)) ` set as"
        by (rule imageI)
      with eq notin Cons.prems(3) show False by simp
    qed
    moreover from Cons.prems have "distinct (map (\<lambda>a. Username (deref w a)) as)" by simp
    ultimately show ?thesis using Cons.IH [OF in_as] Cons.prems(3,4) by auto
  qed
qed

text \<open>A private message to a registered user without sessions is appended to the user's
  queue.\<close>

lemma SendPM_enqueue:
  "a \<in> set (users w) \<Longrightarrow> distinct (map (\<lambda>a. Username (deref w a)) (users w)) \<Longrightarrow>
   Username (deref w a) = t \<Longrightarrow> Sessions (deref w a) = [] \<Longrightarrow>
   SendPM s t msg w =
     Inr (store a ((deref w a)\<lparr>PendingPMs := PendingPMs (deref w a) @ [\<lparr>PmUser = User s, Message = msg\<rparr>]\<rparr>) w)"
  unfolding SendPM_def by (rule SendPM_loop_enqueue)

text \<open>The queue is sent in its order to the session that authenticates.\<close>

lemma flushPMs_fifo:
  "\<forall>pm \<in> set pms. PmUser pm \<noteq> None \<Longrightarrow> Socket s \<notin> set (closed w) \<Longrightarrow>
   flushPMs s pms w =
     Inr (w\<lparr>sent := sent w @ map (\<lambda>pm. (Socket s,
            ''PM'' @ [SOH] @ Username (deref w (the (PmUser pm))) @ [SOH] @ Message pm @ CRLF)) pms\<rparr>)"
  by (induction pms arbitrary: w)
     (auto simp: SendPMFrom_def Write_def sockWrite_def deref_def)

text \<open>The authentication leaves the queue as it is.\<close>

lemma authFinish_keeps_queue:
  assumes "authFinish s u w = Inr (s', w')"
  shows "PendingPMs (deref w' u) = PendingPMs (deref w u)"
proof -
  define w1 where "w1 = store u ((deref w u)\<lparr>Sessions := Sessions (deref w u) @ [s]\<rparr>) w"
  define w2 where "w2 = store u ((deref w1 u)\<lparr>Online := True\<rparr>) w1"
  define w3 where "w3 = store u ((deref w2 u)\<lparr>Away := False\<rparr>) w2"
  define w4 where "w4 = store u ((deref w3 u)\<lparr>AwayReason := []\<rparr>) w3"
  define s1 where "s1 = s\<lparr>Authenticated := True\<rparr>"
  define w5 where "w5 = SendMsg s1 ''Message of the Day'' motdMsg (SendAnnouncementMsg s1 joinMsg (SendList s1 w4))"
  from assms have fl: "flushPMs s1 (PendingPMs (deref w5 u)) w5 = Inr w'"
    unfolding authFinish_def Let_def w1_def w2_def w3_def w4_def w5_def s1_def
    by (auto split: sum.splits)
  have "PendingPMs (deref w4 u) = PendingPMs (deref w u)"
    unfolding w4_def w3_def w2_def w1_def by simp
  moreover have "heap w5 = heap w4" unfolding w5_def by simp
  moreover from flushPMs_frame [OF fl] have "heap w' = heap w5" by simp
  ultimately show ?thesis by (simp add: deref_def)
qed

text \<open>C1: the code at the failing input. alice registers and quits, bob sends her the
  private messages \<open>hello\<close> and \<open>again\<close>, which are queued; alice authenticates on a new
  connection (socket 2) and is sent both, in order. After that the queue still holds both
  messages, and when alice authenticates on yet another connection (socket 3) she is sent
  both again: the queue is never emptied.\<close>

theorem pending_messages_not_cleared:
  "(case run exampleHash exampleVerify pendingEvents init of
     Inl e \<Rightarrow> False
   | Inr sys \<Rightarrow>
       map Message (PendingPMs (deref (world sys) 0)) = [''hello'', ''again'']
       \<and> filter (\<lambda>(c, bs). take 3 bs = ''PM'' @ [SOH]) (sent (world sys)) =
           [(2, ''PM'' @ [SOH] @ ''bob'' @ [SOH] @ ''hello'' @ CRLF),
            (2, ''PM'' @ [SOH] @ ''bob'' @ [SOH] @ ''again'' @ CRLF),
            (3, ''PM'' @ [SOH] @ ''bob'' @ [SOH] @ ''hello'' @ CRLF),
            (3, ''PM'' @ [SOH] @ ''bob'' @ [SOH] @ ''again'' @ CRLF)])"
  by code_simp

subsection \<open>QUIT\<close>

lemma Split_QUIT: "Split (''QUIT'' @ CRLF @ rest) CRLF = ''QUIT'' # Split rest CRLF"
  by (simp add: Split_def CRLF_def CR_def LF_def)

lemma decodePacket_QUIT: "decodePacket ''QUIT'' = (''QUIT'', [])"
  by (simp add: decodePacket_def Split_def SOH_def)

lemma decode_QUIT: "decode (''QUIT'' @ CRLF @ rest) = (''QUIT'', []) # decode rest"
  using Split_QUIT [of rest] decodePacket_QUIT by (simp add: decode_def)

text \<open>C9: the code at the failing inputs. A session joins with a name that is not registered
  and then sends QUIT in the same read: \<^verbatim>\<open>Close\<close> finds no user of that name in the registry and
  closes nothing, so after the read no socket is closed. And QUIT from a session without user,
  with a non-empty registry, panics in \<^verbatim>\<open>Close\<close>, so that the record after it is not
  dispatched.\<close>

theorem QUIT_leaves_socket_open:
  "map_sum id (closed \<circ> snd)
     (handleRead exampleHash exampleVerify exampleTok
        (''JOIN'' @ [SOH] @ ''bob'' @ CRLF @ ''QUIT'' @ CRLF) freshSession (world init)) = Inr []
   \<and> handleRead exampleHash exampleVerify exampleTok
        (''QUIT'' @ CRLF @ ''PING'' @ [SOH] @ ''x'' @ CRLF) (freshSession\<lparr>Socket := 1\<rparr>) aliceWorld
       = Inl NilPointerDereference"
  by code_simp

text \<open>What holds of QUIT: for a session \<open>s\<close> whose user is in the registry (with pairwise
  different names there, as for every authenticated session of a reachable state), a read
  that starts with the record QUIT closes the socket of \<open>s\<close> and removes the sessions with the
  remote address of \<open>s\<close> from the user's sessions, and the records after QUIT in the same read
  are decoded and dispatched, with the session value unchanged, in the world after the
  teardown; the next read of that connection fails.\<close>

theorem QUIT_continues:
  assumes "User s = Some u" and "u < length (heap w)" and "u \<in> set (users w)"
    and "distinct (map (\<lambda>a. Username (deref w a)) (users w))"
  shows "\<exists>w'. Close s w = Inr w' \<and> Socket s \<in> set (closed w')
     \<and> Sessions (deref w' u) = filter (\<lambda>e. RemoteAddr s \<noteq> RemoteAddr e) (Sessions (deref w u))
     \<and> handleRead H V tok (''QUIT'' @ CRLF @ rest) s w = dispatchAll H V tok (decode rest) s w'
     \<and> (\<forall>sys i tok' buf. i < length (workers sys) \<and> map_of (preempted sys) i = None
            \<and> workers sys ! i = Some s \<and> world sys = w'
          \<longrightarrow> step H V (Read i tok' buf) sys = readFailed i s sys)"
proof -
  from assms have c: "Close s w = Inr (Close_body s u u w)"
    unfolding Close_def by (intro Close_loop_registered)
  have q: "dispatch H V tok ''QUIT'' [] s w = Inr (s, Close_body s u u w)"
    by (simp add: dispatch_def cmdQUIT_def c)
  have "handleRead H V tok (''QUIT'' @ CRLF @ rest) s w = dispatchAll H V tok (decode rest) s (Close_body s u u w)"
    by (simp only: handleRead_decode decode_QUIT dispatchAll.simps fst_conv snd_conv q sum.case prod.case)
  moreover from Close_body_props(3) [OF assms(2), of s] have cl: "Socket s \<in> set (closed (Close_body s u u w))" .
  moreover have "\<forall>sys i tok' buf. i < length (workers sys) \<and> map_of (preempted sys) i = None
            \<and> workers sys ! i = Some s \<and> world sys = Close_body s u u w
          \<longrightarrow> step H V (Read i tok' buf) sys = readFailed i s sys"
    using cl by (auto simp: step_def)
  ultimately show ?thesis
    using c Close_body_props(1) [OF assms(2), of s] by (intro exI [of _ "Close_body s u u w"]) simp
qed


theorem QUIT_continues_witness:
  "User aliceSession = Some 0 \<and> 0 < length (heap aliceTwoWorld) \<and> 0 \<in> set (users aliceTwoWorld)
   \<and> distinct (map (\<lambda>a. Username (deref aliceTwoWorld a)) (users aliceTwoWorld))
   \<and> handleRead exampleHash exampleVerify exampleTok
        (''QUIT'' @ CRLF @ ''MSG'' @ [SOH] @ ''alice'' @ [SOH] @ ''bye'' @ CRLF) aliceSession aliceTwoWorld
       = Inr (aliceSession, (Close_body aliceSession 0 0 aliceTwoWorld)
               \<lparr>sent := [(1, ''MSG'' @ [SOH] @ ''alice'' @ [SOH] @ ''bye'' @ CRLF)]\<rparr>)
   \<and> closed (Close_body aliceSession 0 0 aliceTwoWorld) = [0]
   \<and> Sessions (deref (Close_body aliceSession 0 0 aliceTwoWorld) 0) = [aliceSecond]"
proof -
  have h1: "User aliceSession = Some 0" by (simp add: aliceSession_def aliceAttached_def)
  have h3: "0 < length (heap aliceTwoWorld)" "0 \<in> set (users aliceTwoWorld)"
    "distinct (map (\<lambda>a. Username (deref aliceTwoWorld a)) (users aliceTwoWorld))"
    by (simp_all add: aliceTwoWorld_def)
  have c: "Close aliceSession aliceTwoWorld = Inr (Close_body aliceSession 0 0 aliceTwoWorld)"
    by (simp add: Close_def aliceSession_def aliceAttached_def aliceTwoWorld_def deref_def newUser_def)
  have d: "dispatchAll exampleHash exampleVerify exampleTok
             (decode (''MSG'' @ [SOH] @ ''alice'' @ [SOH] @ ''bye'' @ CRLF)) aliceSession
             (Close_body aliceSession 0 0 aliceTwoWorld)
           = Inr (aliceSession, (Close_body aliceSession 0 0 aliceTwoWorld)
               \<lparr>sent := [(1, ''MSG'' @ [SOH] @ ''alice'' @ [SOH] @ ''bye'' @ CRLF)]\<rparr>)"
    by code_simp
  have e: "closed (Close_body aliceSession 0 0 aliceTwoWorld) = [0]"
    "Sessions (deref (Close_body aliceSession 0 0 aliceTwoWorld) 0) = [aliceSecond]"
    by code_simp+
  from QUIT_continues [OF h1 h3, of exampleHash exampleVerify exampleTok
      "''MSG'' @ [SOH] @ ''alice'' @ [SOH] @ ''bye'' @ CRLF"]
  obtain w' where "Close aliceSession aliceTwoWorld = Inr w'"
    and "handleRead exampleHash exampleVerify exampleTok
        (''QUIT'' @ CRLF @ ''MSG'' @ [SOH] @ ''alice'' @ [SOH] @ ''bye'' @ CRLF) aliceSession aliceTwoWorld
        = dispatchAll exampleHash exampleVerify exampleTok
             (decode (''MSG'' @ [SOH] @ ''alice'' @ [SOH] @ ''bye'' @ CRLF)) aliceSession w'"
    by blast
  with c d have "handleRead exampleHash exampleVerify exampleTok
        (''QUIT'' @ CRLF @ ''MSG'' @ [SOH] @ ''alice'' @ [SOH] @ ''bye'' @ CRLF) aliceSession aliceTwoWorld
       = Inr (aliceSession, (Close_body aliceSession 0 0 aliceTwoWorld)
               \<lparr>sent := [(1, ''MSG'' @ [SOH] @ ''alice'' @ [SOH] @ ''bye'' @ CRLF)]\<rparr>)"
    by simp
  with h1 h3 e show ?thesis by blast
qed


subsection \<open>NAME before AUTH\<close>

lemma getUser_loop_agree:
  "(\<forall>a \<in> set as. deref w' a = deref w a) \<Longrightarrow> getUser_loop w' n as = getUser_loop w n as"
  by (induction as) simp_all

lemma userExists_loop_agree:
  "(\<forall>a \<in> set as. deref w' a = deref w a) \<Longrightarrow> userExists_loop w' n as = userExists_loop w n as"
  by (induction as) simp_all

text \<open>C10: a session without user joins with a registered name \<open>n\<close> and is attached to the
  registered user object; it is not authenticated. The command NAME \<open>n\<close> \<open>m\<close>, for a name \<open>m\<close>
  that is not registered, then succeeds: the registered user, still in the registry with
  its digest, has the name \<open>m\<close>, and the session is still not authenticated. This holds for
  every password service, also for one that accepts no password at all.\<close>

theorem rename_without_password:
  assumes valid: "\<forall>a \<in> set (users w). a < length (heap w)"
    and fresh: "User s = None" "\<not> Authenticated s"
    and reg: "getUser n w = Some r"
    and free: "\<not> userExists m w"
  shows "\<exists>s1 w1 s2 w2.
      dispatch H V tok ''JOIN'' [n] s w = Inr (s1, w1) \<and> User s1 = Some r \<and> \<not> Authenticated s1
    \<and> dispatch H V tok ''NAME'' [n, m] s1 w1 = Inr (s2, w2) \<and> \<not> Authenticated s2
    \<and> r \<in> set (users w2) \<and> PasswordHash (deref w r) \<noteq> [] \<and> Username (deref w r) = n
    \<and> PasswordHash (deref w2 r) = PasswordHash (deref w r) \<and> Username (deref w2 r) = m"
proof -
  from getUser_Some [OF reg] have r: "r \<in> set (users w)" "Username (deref w r) = n"
    "PasswordHash (deref w r) \<noteq> []" by simp_all
  with valid have rl: "r < length (heap w)" by blast
  let ?s0 = "s\<lparr>User := Some (length (heap w))\<rparr>"
  let ?wp = "Ping ?s0 tok (w\<lparr>heap := heap w @ [newUser n]\<rparr>)"
  have agree: "\<forall>a \<in> set (users w). deref ?wp a = deref w a"
    using valid by (simp add: deref_def nth_append)
  have up: "users ?wp = users w" by simp
  have ue: "userExists x ?wp = userExists x w" for x
    unfolding userExists_def up using agree by (rule userExists_loop_agree)
  have gu: "getUser n ?wp = Some r"
    unfolding getUser_def up using getUser_loop_agree [OF agree] reg by (simp add: getUser_def)
  from reg have "userExists n w"
    using r unfolding userExists_iff getUser_def by (auto dest!: getUser_loop_Some)
  with ue have ue1: "userExists n ?wp" by simp
  let ?s1 = "?s0\<lparr>User := Some r\<rparr>"
  let ?w1 = "SendAuthMsg ?s1 ''You must authenticate with the password attached to your username to continue. Ex: [u]/auth MyPassword[/u]'' ?wp"
  have j: "dispatch H V tok ''JOIN'' [n] s w = Inr (?s1, ?w1)"
    using fresh ue1 gu by (simp add: dispatch_def cmdJOIN_def Let_def)
  have d1: "deref ?w1 a = deref ?wp a" for a by simp
  have dr: "deref ?w1 r = deref w r" using agree r(1) by simp
  have h1: "length (heap ?w1) = Suc (length (heap w))" by simp
  have u1: "users ?w1 = users w" by simp
  have agree1: "\<forall>a \<in> set (users w). deref ?w1 a = deref w a" using agree by simp
  have ne: "\<not> userExists m ?w1"
    unfolding userExists_def u1 using userExists_loop_agree [OF agree1] free
    by (simp add: userExists_def)
  let ?w2 = "SendAnnouncementMsg ?s1 (n @ '' is now known as '' @ m @ ''.'')
               (store r ((deref ?w1 r)\<lparr>Username := m\<rparr>) ?w1)"
  have nm: "dispatch H V tok ''NAME'' [n, m] ?s1 ?w1 = Inr (?s1, ?w2)"
    using fresh ne dr r(2) by (simp add: dispatch_def cmdNAME_def Let_def)
  have d2: "deref ?w2 r = (deref w r)\<lparr>Username := m\<rparr>"
    using rl dr by simp
  have "User ?s1 = Some r" "\<not> Authenticated ?s1" using fresh by simp_all
  moreover have "r \<in> set (users ?w2)" using r(1) by simp
  moreover have "PasswordHash (deref ?w2 r) = PasswordHash (deref w r)" "Username (deref ?w2 r) = m"
    unfolding d2 by simp_all
  ultimately show ?thesis using j nm r by blast
qed


theorem rename_without_password_witness:
  "list_all (\<lambda>a. a < length (heap aliceWorld)) (users aliceWorld)
   \<and> User (freshSession\<lparr>Socket := 1\<rparr>) = None \<and> \<not> Authenticated (freshSession\<lparr>Socket := 1\<rparr>)
   \<and> getUser ''alice'' aliceWorld = Some 0 \<and> \<not> userExists ''mallory'' aliceWorld
   \<and> (\<exists>s1 w1 s2 w2.
        dispatch exampleHash (\<lambda>digest p. False) exampleTok ''JOIN'' [''alice''] (freshSession\<lparr>Socket := 1\<rparr>) aliceWorld
          = Inr (s1, w1)
      \<and> dispatch exampleHash (\<lambda>digest p. False) exampleTok ''NAME'' [''alice'', ''mallory''] s1 w1 = Inr (s2, w2)
      \<and> \<not> Authenticated s2 \<and> users w2 = [0] \<and> Username (deref aliceWorld 0) = ''alice''
      \<and> PasswordHash (deref w2 0) = ''$2a$secret'' \<and> Username (deref w2 0) = ''mallory'')"
proof -
  have v: "\<forall>a \<in> set (users aliceWorld). a < length (heap aliceWorld)" by (simp add: aliceWorld_def)
  have f: "User (freshSession\<lparr>Socket := 1\<rparr>) = None" "\<not> Authenticated (freshSession\<lparr>Socket := 1\<rparr>)"
    by (simp_all add: freshSession_def)
  have g: "getUser ''alice'' aliceWorld = Some 0"
    by (simp add: getUser_def aliceWorld_def deref_def newUser_def)
  have n: "\<not> userExists ''mallory'' aliceWorld"
    by (simp add: userExists_def aliceWorld_def deref_def newUser_def)
  have p: "PasswordHash (deref aliceWorld 0) = ''$2a$secret''" "users aliceWorld = [0]"
    by (simp_all add: aliceWorld_def deref_def newUser_def)
  from rename_without_password [OF v f g n, of exampleHash "\<lambda>digest p. False" exampleTok]
  obtain s1 w1 s2 w2 where
    "dispatch exampleHash (\<lambda>digest p. False) exampleTok ''JOIN'' [''alice''] (freshSession\<lparr>Socket := 1\<rparr>) aliceWorld
          = Inr (s1, w1)"
    "dispatch exampleHash (\<lambda>digest p. False) exampleTok ''NAME'' [''alice'', ''mallory''] s1 w1 = Inr (s2, w2)"
    "\<not> Authenticated s2" "0 \<in> set (users w2)" "Username (deref aliceWorld 0) = ''alice''"
    "PasswordHash (deref w2 0) = PasswordHash (deref aliceWorld 0)" "Username (deref w2 0) = ''mallory''"
    by blast
  moreover from this(2) have "users w2 = users w1"
    by (auto simp: dispatch_def cmdNAME_def Let_def split: option.splits if_splits)
  moreover from \<open>dispatch exampleHash (\<lambda>digest p. False) exampleTok ''JOIN'' [''alice''] (freshSession\<lparr>Socket := 1\<rparr>) aliceWorld
          = Inr (s1, w1)\<close> have "users w1 = users aliceWorld"
    by (auto simp: dispatch_def cmdJOIN_def Let_def split: option.splits if_splits)
  moreover from v have "list_all (\<lambda>a. a < length (heap aliceWorld)) (users aliceWorld)"
    by (simp add: list_all_iff)
  ultimately show ?thesis using f g n p by (intro conjI exI [of _ s1] exI [of _ w1] exI [of _ s2] exI [of _ w2]) simp_all
qed


end
